theory Spec2Isabelle
  imports Complex_Main "HOL-Library.Sublist" "HOL-Library.Char_ord"
begin

section \<open>JavaScript values\<close>

text \<open>
  The bet selection is typed \<^verbatim>\<open>any\<close> in \<^verbatim>\<open>bets.service.ts\<close>: an object whose
  properties are read by name. A property holds a number, a string, or is absent
  (reading it gives \<^verbatim>\<open>undefined\<close>). Numbers are exact rationals: the model has no
  rounding error, no infinity and no stored NaN. A number that a computation produces
  is a \<open>rat option\<close>, \<open>None\<close> being NaN.
\<close>

datatype jsval = JUndef | JNum rat | JStr string

type_synonym selection = "string \<Rightarrow> jsval"

text \<open>An object literal: the listed properties, every other one absent.\<close>

definition obj :: "(string \<times> jsval) list \<Rightarrow> selection" where
  "obj kvs = (\<lambda>k. case map_of kvs k of Some v \<Rightarrow> v | None \<Rightarrow> JUndef)"

text \<open>
  ToNumber. What a string converts to is JavaScript's numeric-literal grammar, which
  is taken as the parameter \<open>S\<close> (\<open>None\<close> for a string that is not a number).
\<close>

fun toNumber :: "(string \<Rightarrow> rat option) \<Rightarrow> jsval \<Rightarrow> rat option" where
  "toNumber S JUndef = None"
| "toNumber S (JNum r) = Some r"
| "toNumber S (JStr s) = S s"

text \<open>Truthiness: \<^verbatim>\<open>!x\<close> holds of undefined, 0 and the empty string.\<close>

fun falsy :: "jsval \<Rightarrow> bool" where
  "falsy JUndef = True"
| "falsy (JNum r) = (r = 0)"
| "falsy (JStr s) = (s = [])"

text \<open>\<^verbatim>\<open>x ?? y\<close> and \<^verbatim>\<open>x || y\<close>.\<close>

fun nullish :: "jsval \<Rightarrow> jsval \<Rightarrow> jsval" where
  "nullish JUndef y = y"
| "nullish x y = x"

definition js_or :: "jsval \<Rightarrow> jsval \<Rightarrow> jsval" where
  "js_or x y = (if falsy x then y else x)"

text \<open>
  The relational operators: two strings are compared as strings, anything else as
  numbers, and a comparison with NaN is false.
\<close>

definition js_lt :: "(string \<Rightarrow> rat option) \<Rightarrow> jsval \<Rightarrow> jsval \<Rightarrow> bool" where
  "js_lt S x y =
     (case (x, y) of
        (JStr a, JStr b) \<Rightarrow> ord_class.lexordp a b
      | _ \<Rightarrow> (case (toNumber S x, toNumber S y) of
                (Some p, Some q) \<Rightarrow> p < q
              | _ \<Rightarrow> False))"

definition js_gt :: "(string \<Rightarrow> rat option) \<Rightarrow> jsval \<Rightarrow> jsval \<Rightarrow> bool" where
  "js_gt S x y = js_lt S y x"

definition js_le :: "(string \<Rightarrow> rat option) \<Rightarrow> jsval \<Rightarrow> jsval \<Rightarrow> bool" where
  "js_le S x y =
     (case (x, y) of
        (JStr a, JStr b) \<Rightarrow> \<not> ord_class.lexordp b a
      | _ \<Rightarrow> (case (toNumber S x, toNumber S y) of
                (Some p, Some q) \<Rightarrow> p \<le> q
              | _ \<Rightarrow> False))"

definition js_ge :: "(string \<Rightarrow> rat option) \<Rightarrow> jsval \<Rightarrow> jsval \<Rightarrow> bool" where
  "js_ge S x y = js_le S y x"

text \<open>
  \<^verbatim>\<open>a % b\<close>: the remainder has the sign of the dividend. Every call site divides by
  a non-zero number.
\<close>

definition js_trunc :: "rat \<Rightarrow> int" where
  "js_trunc x = (if 0 \<le> x then \<lfloor>x\<rfloor> else \<lceil>x\<rceil>)"

definition js_rem :: "rat \<Rightarrow> rat \<Rightarrow> rat" where
  "js_rem a b = a - b * of_int (js_trunc (a / b))"

definition isInteger :: "rat \<Rightarrow> bool" where
  "isInteger r = (r = of_int \<lfloor>r\<rfloor>)"

section \<open>Market types and errors\<close>

text \<open>
  The enum \<^verbatim>\<open>MarketType\<close> of \<^verbatim>\<open>@/shared/types\<close>: the ten members the service
  names. The market type of a round is read from storage, so a value outside the enum
  can reach every \<^verbatim>\<open>switch\<close>; \<open>UNKNOWN_MARKET\<close> stands for it.
\<close>

datatype MarketType =
    PICK_RANGE | EVEN_ODD | LAST_DIGIT | MODULO_THREE | PATTERN_OF_DAY
  | SHAPE_COLOR | ENTROPY_BATTLE | STREAK_METER | COMMUNITY_SEED | JACKPOT
  | UNKNOWN_MARKET string

datatype error =
    ValidationError string
  | NotFoundError string
  | ConflictError string
  | DuplicateKey
  | Error string

section \<open>Selection codec\<close>

record encoded =
  kind :: rat
  a :: jsval
  b :: jsval
  c :: jsval

text \<open>
  \<^verbatim>\<open>sourceMap[selection.source]\<close>: the own properties of the literal
  \<^verbatim>\<open>{ tee: 0, chain: 1, sensor: 2 }\<close>.
\<close>

definition sourceMap :: "jsval \<Rightarrow> jsval" where
  "sourceMap k =
     (if k = JStr ''tee'' then JNum 0
      else if k = JStr ''chain'' then JNum 1
      else if k = JStr ''sensor'' then JNum 2
      else JUndef)"

fun encodeSelection :: "selection \<Rightarrow> MarketType \<Rightarrow> error + encoded" where
  "encodeSelection s PICK_RANGE =
     (if s ''type'' = JStr ''range''
      then Inr \<lparr>kind = 0, a = s ''min'', b = s ''max'', c = JNum 0\<rparr>
      else Inr \<lparr>kind = 1, a = s ''value'', b = JNum 0, c = JNum 0\<rparr>)"
| "encodeSelection s EVEN_ODD =
     Inr \<lparr>kind = 2, a = (if s ''value'' = JStr ''even'' then JNum 0 else JNum 1),
          b = JNum 0, c = JNum 0\<rparr>"
| "encodeSelection s LAST_DIGIT =
     Inr \<lparr>kind = 3, a = s ''value'', b = JNum 0, c = JNum 0\<rparr>"
| "encodeSelection s MODULO_THREE =
     Inr \<lparr>kind = 4, a = s ''value'', b = JNum 0, c = JNum 0\<rparr>"
| "encodeSelection s PATTERN_OF_DAY =
     Inr \<lparr>kind = 5, a = js_or (s ''patternId'') (JNum 0), b = JNum 0, c = JNum 0\<rparr>"
| "encodeSelection s SHAPE_COLOR =
     Inr \<lparr>kind = 6, a = nullish (s ''shape'') (JNum 255),
          b = nullish (s ''color'') (JNum 255), c = nullish (s ''size'') (JNum 255)\<rparr>"
| "encodeSelection s ENTROPY_BATTLE =
     Inr \<lparr>kind = 7, a = nullish (sourceMap (s ''source'')) (JNum 0),
          b = JNum 0, c = JNum 0\<rparr>"
| "encodeSelection s STREAK_METER =
     Inr \<lparr>kind = 8, a = s ''target'', b = JNum 0, c = JNum 0\<rparr>"
| "encodeSelection s COMMUNITY_SEED =
     Inr \<lparr>kind = 9, a = s ''byte'', b = JNum 0, c = JNum 0\<rparr>"
| "encodeSelection s JACKPOT = Inl (ValidationError ''Invalid market type'')"
| "encodeSelection s (UNKNOWN_MARKET m) = Inl (ValidationError ''Invalid market type'')"

text \<open>
  \<^verbatim>\<open>map[encoded.a]\<close> on \<^verbatim>\<open>['tee', 'chain', 'sensor']\<close>: the own properties of
  the array, which are its three elements (a string that spells an index reads the same
  element) and its length. Inherited properties are functions, which \<open>jsval\<close> does
  not hold; the same goes for \<open>sourceMap\<close> above.
\<close>

definition sourceNames :: "jsval \<Rightarrow> jsval" where
  "sourceNames k =
     (if k = JNum 0 \<or> k = JStr ''0'' then JStr ''tee''
      else if k = JNum 1 \<or> k = JStr ''1'' then JStr ''chain''
      else if k = JNum 2 \<or> k = JStr ''2'' then JStr ''sensor''
      else if k = JStr ''length'' then JNum 3
      else JUndef)"

fun decodeSelection :: "encoded \<Rightarrow> MarketType \<Rightarrow> selection" where
  "decodeSelection e PICK_RANGE =
     (if kind e = 0
      then obj [(''type'', JStr ''range''), (''min'', a e), (''max'', b e)]
      else obj [(''type'', JStr ''single''), (''value'', a e)])"
| "decodeSelection e EVEN_ODD =
     obj [(''type'', JStr ''parity''),
          (''value'', if a e = JNum 0 then JStr ''even'' else JStr ''odd'')]"
| "decodeSelection e LAST_DIGIT = obj [(''type'', JStr ''digit''), (''value'', a e)]"
| "decodeSelection e MODULO_THREE = obj [(''type'', JStr ''modulo''), (''value'', a e)]"
| "decodeSelection e PATTERN_OF_DAY =
     obj [(''type'', JStr ''pattern''), (''patternId'', a e)]"
| "decodeSelection e SHAPE_COLOR =
     obj [(''type'', JStr ''shape''), (''shape'', a e), (''color'', b e), (''size'', c e)]"
| "decodeSelection e ENTROPY_BATTLE =
     obj [(''type'', JStr ''entropy''),
          (''source'', nullish (sourceNames (a e)) (JStr ''tee''))]"
| "decodeSelection e STREAK_METER = obj [(''type'', JStr ''streak''), (''target'', a e)]"
| "decodeSelection e COMMUNITY_SEED = obj [(''type'', JStr ''community''), (''byte'', a e)]"
| "decodeSelection e JACKPOT = obj []"
| "decodeSelection e (UNKNOWN_MARKET m) = obj []"

text \<open>
  \<^verbatim>\<open>validateSelection\<close>: the format check, then the \<^verbatim>\<open>switch\<close> on the market
  type (\<open>validateMarket\<close>). \<open>maxStreak\<close> is \<^verbatim>\<open>config.MAX_STREAK_TARGET\<close>,
  \<^verbatim>\<open>validByte\<close> is the local closure of the \<^verbatim>\<open>SHAPE_COLOR\<close> case, and
  \<open>validPattern\<close> is the test of the \<^verbatim>\<open>PATTERN_OF_DAY\<close> case on
  \<^verbatim>\<open>Number(selection.patternId)\<close>. The selection is an object, so \<^verbatim>\<open>!selection\<close>
  is false.
\<close>

fun validByte :: "jsval \<Rightarrow> bool" where
  "validByte JUndef = True"
| "validByte (JNum n) = (isInteger n \<and> 0 \<le> n \<and> n \<le> 255)"
| "validByte (JStr s) = False"

definition validPattern :: "(string \<Rightarrow> rat option) \<Rightarrow> jsval \<Rightarrow> bool" where
  "validPattern S p =
     (case toNumber S p of
        None \<Rightarrow> False
      | Some pid \<Rightarrow> isInteger pid \<and> \<not> pid < 0 \<and> \<not> pid > 6)"

fun validateMarket ::
  "(string \<Rightarrow> rat option) \<Rightarrow> rat \<Rightarrow> selection \<Rightarrow> MarketType \<Rightarrow> error + unit" where
  "validateMarket S maxStreak s PICK_RANGE =
     (if s ''type'' = JStr ''range'' then
        (if js_lt S (s ''min'') (JNum 1) \<or> js_gt S (s ''max'') (JNum 100)
            \<or> js_gt S (s ''min'') (s ''max'')
         then Inl (ValidationError ''Invalid range selection'') else Inr ())
      else if s ''type'' = JStr ''single'' then
        (if js_lt S (s ''value'') (JNum 1) \<or> js_gt S (s ''value'') (JNum 100)
         then Inl (ValidationError ''Invalid single number selection'') else Inr ())
      else Inr ())"
| "validateMarket S maxStreak s EVEN_ODD =
     (if \<not> (s ''value'' = JStr ''even'' \<or> s ''value'' = JStr ''odd'')
      then Inl (ValidationError ''Invalid parity selection'') else Inr ())"
| "validateMarket S maxStreak s LAST_DIGIT =
     (if js_lt S (s ''value'') (JNum 0) \<or> js_gt S (s ''value'') (JNum 9)
      then Inl (ValidationError ''Invalid digit selection'') else Inr ())"
| "validateMarket S maxStreak s MODULO_THREE =
     (if js_lt S (s ''value'') (JNum 0) \<or> js_gt S (s ''value'') (JNum 2)
      then Inl (ValidationError ''Invalid modulo selection'') else Inr ())"
| "validateMarket S maxStreak s PATTERN_OF_DAY =
     (if \<not> validPattern S (s ''patternId'')
      then Inl (ValidationError ''Invalid pattern selection'') else Inr ())"
| "validateMarket S maxStreak s SHAPE_COLOR =
     (if \<not> validByte (s ''shape'') \<or> \<not> validByte (s ''color'') \<or> \<not> validByte (s ''size'')
      then Inl (ValidationError ''Invalid shape selection'') else Inr ())"
| "validateMarket S maxStreak s ENTROPY_BATTLE =
     (if \<not> (s ''source'' = JStr ''tee'' \<or> s ''source'' = JStr ''chain''
             \<or> s ''source'' = JStr ''sensor'')
      then Inl (ValidationError ''Invalid entropy source selection'') else Inr ())"
| "validateMarket S maxStreak s STREAK_METER =
     (if js_lt S (s ''target'') (JNum 2) \<or> js_gt S (s ''target'') (JNum maxStreak)
      then Inl (ValidationError ''Invalid streak target'') else Inr ())"
| "validateMarket S maxStreak s COMMUNITY_SEED =
     (if js_lt S (s ''byte'') (JNum 0) \<or> js_gt S (s ''byte'') (JNum 255)
      then Inl (ValidationError ''Invalid community seed byte'') else Inr ())"
| "validateMarket S maxStreak s JACKPOT = Inl (ValidationError ''Invalid market type'')"
| "validateMarket S maxStreak s (UNKNOWN_MARKET m) =
     Inl (ValidationError ''Invalid market type'')"

definition validateSelection ::
  "(string \<Rightarrow> rat option) \<Rightarrow> rat \<Rightarrow> selection \<Rightarrow> MarketType \<Rightarrow> error + unit" where
  "validateSelection S maxStreak s marketType =
     (if falsy (s ''type'') then Inl (ValidationError ''Invalid bet selection format'')
      else validateMarket S maxStreak s marketType)"

section \<open>Odds engine\<close>

text \<open>
  \<^verbatim>\<open>calculateOdds\<close> and its local closures. \<open>houseEdgeBps\<close> is a number;
  \<open>fromEqualBins\<close> and \<open>fromProbability\<close> close over \<open>edgeFactor\<close>, their first
  argument here. The numerator of \<open>fromProbability\<close> can be NaN (\<open>None\<close>), which
  \<^verbatim>\<open>!num\<close> treats as zero.
\<close>

definition edgeFactor :: "rat \<Rightarrow> rat" where
  "edgeFactor houseEdgeBps = 10000 / (10000 + min (max houseEdgeBps 0) 10000)"

definition fromEqualBins :: "rat \<Rightarrow> rat \<Rightarrow> rat" where
  "fromEqualBins ef n = max 1 (of_int \<lfloor>n * ef * 100\<rfloor> / 100)"

definition fromProbability :: "rat \<Rightarrow> rat option \<Rightarrow> rat \<Rightarrow> rat" where
  "fromProbability ef num den =
     (case num of
        None \<Rightarrow> 0
      | Some n \<Rightarrow>
          if n = 0 \<or> den = 0 then 0
          else max 1 (of_int \<lfloor>(den / n) * ef * 100\<rfloor> / 100))"

text \<open>The pattern frequency table and \<^verbatim>\<open>counts[idx]\<close> for a number \<open>idx\<close>.\<close>

definition counts :: "rat list" where
  "counts = [168, 10, 29, 52, 73, 437, 231]"

definition counts_at :: "rat \<Rightarrow> rat option" where
  "counts_at idx =
     (if isInteger idx \<and> 0 \<le> idx \<and> idx < 7 then Some (counts ! nat \<lfloor>idx\<rfloor>) else None)"

text \<open>
  \<open>choose_js\<close> is \<^verbatim>\<open>choose\<close>, the closure of the \<^verbatim>\<open>COMMUNITY_SEED\<close> case, with its loop
  \<^verbatim>\<open>for (let i = 0; i < k; i++) { numer *= (n - i); denom *= (i + 1); }\<close>.
\<close>

function choose_loop :: "int \<Rightarrow> int \<Rightarrow> int \<Rightarrow> rat \<Rightarrow> rat \<Rightarrow> rat \<times> rat" where
  "choose_loop n k i numer denom =
     (if i < k then choose_loop n k (i + 1) (numer * of_int (n - i)) (denom * of_int (i + 1))
      else (numer, denom))"
  by pat_completeness auto
termination
  by (relation "measure (\<lambda>(n, k, i, numer, denom). nat (k - i))") auto

declare choose_loop.simps [simp del]

definition choose_js :: "int \<Rightarrow> int \<Rightarrow> rat" where
  "choose_js n k =
     (if k < 0 \<or> k > n then 0
      else (case choose_loop n (min k (n - k)) 0 1 1 of
              (numer, denom) \<Rightarrow> of_int \<lfloor>numer / denom\<rfloor>))"

text \<open>\<^verbatim>\<open>for (let k = 0; k <= t; k++) num += choose(8, k)\<close>, for a number \<open>t\<close>.\<close>

function sum_choose :: "rat \<Rightarrow> int \<Rightarrow> rat \<Rightarrow> rat" where
  "sum_choose t k num =
     (if of_int k \<le> t then sum_choose t (k + 1) (num + choose_js 8 k) else num)"
  by pat_completeness auto
termination
  by (relation "measure (\<lambda>(t, k, num). nat (\<lfloor>t\<rfloor> + 1 - k))") (auto simp: le_floor_iff)

declare sum_choose.simps [simp del]

fun calculateOdds ::
  "(string \<Rightarrow> rat option) \<Rightarrow> selection \<Rightarrow> MarketType \<Rightarrow> rat \<Rightarrow> rat" where
  "calculateOdds S s PICK_RANGE houseEdgeBps =
     (if s ''type'' = JStr ''range'' then
        (case (toNumber S (s ''max''), toNumber S (s ''min'')) of
           (Some hi, Some lo) \<Rightarrow>
             (let width = hi - lo + 1 in
              if width > 0 \<and> js_rem 100 width = 0
              then fromEqualBins (edgeFactor houseEdgeBps) (100 / width)
              else fromProbability (edgeFactor houseEdgeBps) (Some width) 100)
         | _ \<Rightarrow> fromProbability (edgeFactor houseEdgeBps) None 100)
      else if s ''type'' = JStr ''single'' then fromEqualBins (edgeFactor houseEdgeBps) 100
      else fromEqualBins (edgeFactor houseEdgeBps) 2)"
| "calculateOdds S s EVEN_ODD houseEdgeBps = fromEqualBins (edgeFactor houseEdgeBps) 2"
| "calculateOdds S s LAST_DIGIT houseEdgeBps = fromEqualBins (edgeFactor houseEdgeBps) 10"
| "calculateOdds S s MODULO_THREE houseEdgeBps = fromEqualBins (edgeFactor houseEdgeBps) 3"
| "calculateOdds S s JACKPOT houseEdgeBps = fromEqualBins (edgeFactor houseEdgeBps) 100"
| "calculateOdds S s ENTROPY_BATTLE houseEdgeBps = fromEqualBins (edgeFactor houseEdgeBps) 3"
| "calculateOdds S s SHAPE_COLOR houseEdgeBps =
     (let shapes = (if s ''shape'' = JUndef then 4 else 1);
          colors = (if s ''color'' = JUndef then 6 else 1);
          sizes = (if s ''size'' = JUndef then 3 else 1);
          matched = shapes * colors * sizes
      in fromProbability (edgeFactor houseEdgeBps) (Some matched) 72)"
| "calculateOdds S s PATTERN_OF_DAY houseEdgeBps =
     (let idx = (case s ''patternId'' of JNum p \<Rightarrow> p | _ \<Rightarrow> 6);
          num = (case counts_at idx of Some n \<Rightarrow> n | None \<Rightarrow> counts ! 6)
      in fromProbability (edgeFactor houseEdgeBps) (Some num) 1000)"
| "calculateOdds S s COMMUNITY_SEED houseEdgeBps =
     (case toNumber S (nullish (s ''tolerance'') (nullish (s ''t'') (JNum 0))) of
        None \<Rightarrow> fromProbability (edgeFactor houseEdgeBps) (Some 0) 256
      | Some x \<Rightarrow>
          (let t = max 0 (min 8 x)
           in fromProbability (edgeFactor houseEdgeBps) (Some (sum_choose t 0 0)) 256))"
| "calculateOdds S s STREAK_METER houseEdgeBps = fromEqualBins (edgeFactor houseEdgeBps) 2"
| "calculateOdds S s (UNKNOWN_MARKET m) houseEdgeBps =
     fromEqualBins (edgeFactor houseEdgeBps) 2"

section \<open>Win decision\<close>

text \<open>
  The outcome of a round is a tagged object; \<^verbatim>\<open>checkBetWon\<close> tests the tags in the
  order below and the first one present decides. The fields of an outcome are numbers.
  \<open>NoOutcome\<close> is an object with none of the five tags.
\<close>

datatype outcome =
    Numeric rat
  | Shape rat rat
  | Pattern rat
  | Entropy rat
  | Community rat
  | NoOutcome

fun parseEntropySource :: "jsval \<Rightarrow> rat" where
  "parseEntropySource v =
     (if v = JStr ''tee'' then 0
      else if v = JStr ''chain'' then 1
      else if v = JStr ''sensor'' then 2
      else -1)"

fun checkBetWon ::
  "(string \<Rightarrow> rat option) \<Rightarrow> selection \<Rightarrow> outcome \<Rightarrow> MarketType \<Rightarrow> bool" where
  "checkBetWon S s (Numeric v) marketType =
     (if s ''type'' = JStr ''range'' then
        js_ge S (JNum v) (s ''min'') \<and> js_le S (JNum v) (s ''max'')
      else if s ''type'' = JStr ''single'' then JNum v = s ''value''
      else if s ''type'' = JStr ''parity'' then
        (js_rem v 2 = 0 \<and> s ''value'' = JStr ''even'')
        \<or> (js_rem v 2 = 1 \<and> s ''value'' = JStr ''odd'')
      else if s ''type'' = JStr ''digit'' then JNum (js_rem v 10) = s ''value''
      else if s ''type'' = JStr ''modulo'' then JNum (js_rem v 3) = s ''value''
      else False)"
| "checkBetWon S s (Shape shape color) marketType =
     (s ''type'' = JStr ''shape'' \<and> s ''shape'' = JNum shape
      \<and> (falsy (s ''color'') \<or> s ''color'' = JNum color))"
| "checkBetWon S s (Pattern pattern_id) marketType =
     (s ''type'' = JStr ''pattern'' \<and> s ''patternId'' = JNum pattern_id)"
| "checkBetWon S s (Entropy winner) marketType =
     (s ''type'' = JStr ''entropy'' \<and> winner = parseEntropySource (s ''source''))"
| "checkBetWon S s (Community final_byte) marketType =
     (s ''type'' = JStr ''community'' \<and> s ''byte'' = JNum final_byte)"
| "checkBetWon S s NoOutcome marketType = False"

section \<open>Storage, cache and ledger gateway\<close>

text \<open>
  The documents of the Bet and Round collections, with the fields the two services read
  and write. A bet is stored with its user populated (\<open>walletAddress\<close> is the user's
  wallet, absent when the user or the address is missing); a round is stored with its
  market populated (\<open>market_type\<close>, and \<open>market_mintAddress\<close> and
  \<open>market_houseEdgeBps\<close> of the market's config). Timestamps (\<^verbatim>\<open>settledAt\<close>,
  \<^verbatim>\<open>refundedAt\<close>) and the leaderboard accumulator are left out. Storage and Redis
  commands do not fail, apart from the duplicate-key error of \<^verbatim>\<open>Bet.create\<close>; an
  address that is present is well formed, so \<^verbatim>\<open>new PublicKey\<close> throws only for a
  missing one; \<^verbatim>\<open>getMarketConfig\<close> and \<^verbatim>\<open>getAdminKeypair\<close> return.
\<close>

datatype BetStatus = PENDING | WON | LOST | REFUNDED

datatype RoundStatus = PREDICTING | LOCKED | SETTLED | FAILED

record bet =
  bet_id :: nat
  userId :: string
  walletAddress :: "string option"
  roundId :: string
  selection :: selection
  stake :: rat
  odds :: rat
  status :: BetStatus
  payout :: "rat option"
  txSignature :: string
  settleTxSignature :: "string option"
  refundTxSignature :: "string option"

record round =
  roundNumber :: nat
  status :: RoundStatus
  outcome :: "outcome option"
  delegateTxHash :: "string option"
  undelegateTxHash :: "string option"
  baseLayerUndelegateTxHash :: "string option"
  market_type :: MarketType
  market_mintAddress :: "string option"
  market_houseEdgeBps :: "rat option"

text \<open>
  The calls made to the ledger gateway (\<^verbatim>\<open>tokkuProgram\<close>) are logged in the state, in
  order; a bet's call is tagged with the bet's id.
\<close>

datatype call =
    CommitAndUndelegateRoundER
  | EnsureRoundUndelegated
  | WaitForRoundOutcomeOnBase
  | SettleBet nat
  | SettleRound
  | RefundBet nat

text \<open>
  The state: the Round and Bet collections, the wallet address of each user (the User
  collection), the Redis keys of the confirmation path (the locks
  \<^verbatim>\<open>bet-confirm-lock:sig\<close>, the cache \<^verbatim>\<open>bet-confirm:sig\<close>, the per-round index and
  counter) and the log of gateway calls.
\<close>

record state =
  rounds :: "string \<Rightarrow> round option"
  bets :: "bet list"
  users :: "string \<Rightarrow> string option"
  locks :: "string set"
  cache :: "string \<Rightarrow> nat option"
  roundBets :: "string \<Rightarrow> nat list"
  betCount :: "string \<Rightarrow> nat"
  calls :: "call list"

text \<open>
  What the ledger gateway answers. A call either returns or throws an error with a
  message (\<open>Inl\<close>, or \<open>Some\<close> for a call that returns nothing).
  \<open>commitAndUndelegateRoundER\<close> is indexed by the call's number within a settlement run
  (0 before settlement, 1 to 3 for the retries after it), \<open>ensureRoundUndelegated\<close> by
  its call site (0 in the settlement attempt, 1 in the refund fallback), and the per-bet
  calls by the bet's id.
\<close>

record gateway =
  commitAndUndelegateRoundER :: "nat \<Rightarrow> string + string \<times> string"
  ensureRoundUndelegated :: "nat \<Rightarrow> string option"
  waitForRoundOutcomeOnBase :: "string option"
  settleBet :: "nat \<Rightarrow> string + string"
  settleRound :: "string option"
  refundBet :: "nat \<Rightarrow> string + string"

text \<open>Truthiness of an optional string: absent and empty are falsy.\<close>

definition truthy :: "string option \<Rightarrow> bool" where
  "truthy x = (case x of None \<Rightarrow> False | Some s \<Rightarrow> s \<noteq> [])"

text \<open>\<^verbatim>\<open>Boolean(round.delegateTxHash && !round.undelegateTxHash)\<close>.\<close>

definition isDelegated :: "round \<Rightarrow> bool" where
  "isDelegated r = (truthy (delegateTxHash r) \<and> \<not> truthy (undelegateTxHash r))"

text \<open>The storage operations the services use.\<close>

definition Round_findById :: "string \<Rightarrow> state \<Rightarrow> round option" where
  "Round_findById rid st = rounds st rid"

definition Round_updateOne :: "string \<Rightarrow> (round \<Rightarrow> round) \<Rightarrow> state \<Rightarrow> state" where
  "Round_updateOne rid f st = st\<lparr>rounds := (rounds st)(rid := map_option f (rounds st rid))\<rparr>"

definition Bet_find_pending :: "string \<Rightarrow> state \<Rightarrow> bet list" where
  "Bet_find_pending rid st = filter (\<lambda>x. roundId x = rid \<and> bet.status x = PENDING) (bets st)"

fun update_first :: "nat \<Rightarrow> (bet \<Rightarrow> bet) \<Rightarrow> bet list \<Rightarrow> bet list" where
  "update_first i f [] = []"
| "update_first i f (x # xs) = (if bet_id x = i then f x # xs else x # update_first i f xs)"

definition Bet_updateOne :: "nat \<Rightarrow> (bet \<Rightarrow> bet) \<Rightarrow> state \<Rightarrow> state" where
  "Bet_updateOne i f st = st\<lparr>bets := update_first i f (bets st)\<rparr>"

definition log_call :: "call \<Rightarrow> state \<Rightarrow> state" where
  "log_call cl st = st\<lparr>calls := calls st @ [cl]\<rparr>"

section \<open>Settlement engine\<close>

text \<open>
  The two classifiers of \<^verbatim>\<open>bet-settlement.worker.ts\<close>: a substring test on the
  lower-cased message (ASCII letters).
\<close>

definition lower_char :: "char \<Rightarrow> char" where
  "lower_char ch =
     (case map_of (zip ''ABCDEFGHIJKLMNOPQRSTUVWXYZ'' ''abcdefghijklmnopqrstuvwxyz'') ch of
        Some d \<Rightarrow> d
      | None \<Rightarrow> ch)"

definition toLowerCase :: "string \<Rightarrow> string" where
  "toLowerCase s = map lower_char s"

definition str_includes :: "string \<Rightarrow> string \<Rightarrow> bool" where
  "str_includes msg pat = sublist pat msg"

definition isRetryableSettlementError :: "string \<Rightarrow> bool" where
  "isRetryableSettlementError message =
     (let msg = toLowerCase message in
      str_includes msg ''outcomenotrevealed''
      \<or> str_includes msg ''outcome not revealed''
      \<or> str_includes msg ''0x1787''
      \<or> str_includes msg ''outcome not available on base''
      \<or> str_includes msg ''instruction modified data of an account it does not own''
      \<or> str_includes msg ''still delegated'')"

definition isOnchainTxError :: "string \<Rightarrow> bool" where
  "isOnchainTxError message =
     (let msg = toLowerCase message in
      str_includes msg ''simulation failed''
      \<or> str_includes msg ''transaction simulation failed''
      \<or> str_includes msg ''sendtransactionerror''
      \<or> str_includes msg ''custom program error'')"

text \<open>
  The result of a job: it returns, or it throws an error with a message and the
  scheduler retries it.
\<close>

datatype job_result = Done | Thrown string

text \<open>
  Step 2 of a run: a delegated round is committed and undelegated, the two transaction
  ids are stored, and the undelegation is confirmed. \<open>Some\<close> is the message of the
  error thrown.
\<close>

definition undelegate_before :: "gateway \<Rightarrow> string \<Rightarrow> round \<Rightarrow> state \<Rightarrow> string option \<times> state" where
  "undelegate_before gw rid r st =
     (if isDelegated r then
        (case commitAndUndelegateRoundER gw 0 of
           Inl e \<Rightarrow> (Some e, log_call CommitAndUndelegateRoundER st)
         | Inr (erTxHash, baseTxHash) \<Rightarrow>
             (let st1 = Round_updateOne rid
                          (\<lambda>x. x\<lparr>undelegateTxHash := Some erTxHash,
                                  baseLayerUndelegateTxHash := Some baseTxHash\<rparr>)
                          (log_call CommitAndUndelegateRoundER st)
              in (ensureRoundUndelegated gw 0, log_call EnsureRoundUndelegated st1)))
      else (None, st))"

text \<open>
  Step 4, the loop over the pending bets loaded at the start of the run.
  \<^verbatim>\<open>new PublicKey(bet.userId.walletAddress)\<close> throws a TypeError for a bet without a
  wallet; its message matches no pattern of the classifiers.
\<close>

fun settle_loop ::
  "(string \<Rightarrow> rat option) \<Rightarrow> gateway \<Rightarrow> outcome \<Rightarrow> round \<Rightarrow> bet list \<Rightarrow> state
     \<Rightarrow> string option \<times> state" where
  "settle_loop S gw oc r [] st = (None, st)"
| "settle_loop S gw oc r (x # rest) st =
     (let won = checkBetWon S (selection x) oc (market_type r);
          pay = (if won then stake x * odds x else 0)
      in case walletAddress x of
           None \<Rightarrow> (Some ''Cannot read properties of undefined'', st)
         | Some w \<Rightarrow>
             (case settleBet gw (bet_id x) of
                Inl e \<Rightarrow> (Some e, log_call (SettleBet (bet_id x)) st)
              | Inr settleTx \<Rightarrow>
                  settle_loop S gw oc r rest
                    (Bet_updateOne (bet_id x)
                       (\<lambda>y. y\<lparr>bet.status := (if won then WON else LOST), payout := Some pay,
                               settleTxSignature := Some settleTx\<rparr>)
                       (log_call (SettleBet (bet_id x)) st))))"

text \<open>
  Step 6: if the stored round is still delegated after it was marked settled,
  commit-and-undelegate is retried, \<^verbatim>\<open>maxUndelegateAttempts = 3\<close> times at most.
\<close>

function undelegate_retry :: "gateway \<Rightarrow> string \<Rightarrow> nat \<Rightarrow> state \<Rightarrow> state" where
  "undelegate_retry gw rid attempt st =
     (if attempt < 3 then
        (case commitAndUndelegateRoundER gw (Suc attempt) of
           Inr (erTxHash, baseTxHash) \<Rightarrow>
             Round_updateOne rid
               (\<lambda>x. x\<lparr>undelegateTxHash := Some erTxHash,
                       baseLayerUndelegateTxHash := Some baseTxHash\<rparr>)
               (log_call CommitAndUndelegateRoundER st)
         | Inl e \<Rightarrow> undelegate_retry gw rid (attempt + 1) (log_call CommitAndUndelegateRoundER st))
      else st)"
  by pat_completeness auto
termination
  by (relation "measure (\<lambda>(gw, rid, attempt, st). 3 - attempt)") auto

declare undelegate_retry.simps [simp del]

text \<open>Steps 5 and 6: the round is marked settled, then settled on-chain (an error is logged).\<close>

definition finish_round :: "gateway \<Rightarrow> string \<Rightarrow> state \<Rightarrow> state" where
  "finish_round gw rid st =
     (let st1 = Round_updateOne rid (\<lambda>x. x\<lparr>round.status := SETTLED\<rparr>) st;
          st2 = log_call SettleRound st1;
          stillDelegated = (case Round_findById rid st2 of
                              None \<Rightarrow> False
                            | Some refreshed \<Rightarrow> isDelegated refreshed)
      in if stillDelegated then undelegate_retry gw rid 0 st2 else st2)"

text \<open>The \<^verbatim>\<open>try\<close> block of \<^verbatim>\<open>processBetSettlementJob\<close>.\<close>

definition settle_try ::
  "(string \<Rightarrow> rat option) \<Rightarrow> gateway \<Rightarrow> string \<Rightarrow> state \<Rightarrow> string option \<times> state" where
  "settle_try S gw rid st =
     (let pendingBets = Bet_find_pending rid st in
      case Round_findById rid st of
        None \<Rightarrow> (Some (''Round '' @ rid @ '' not found or outcome not available''), st)
      | Some r \<Rightarrow>
          (case outcome r of
             None \<Rightarrow> (Some (''Round '' @ rid @ '' not found or outcome not available''), st)
           | Some oc \<Rightarrow>
               if \<not> truthy (market_mintAddress r)
               then (Some ''Missing mintAddress in market config'', st)
               else
                 (case undelegate_before gw rid r st of
                    (Some e, st1) \<Rightarrow> (Some e, st1)
                  | (None, st1) \<Rightarrow>
                      (case waitForRoundOutcomeOnBase gw of
                         Some e \<Rightarrow> (Some e, log_call WaitForRoundOutcomeOnBase st1)
                       | None \<Rightarrow>
                           (case settle_loop S gw oc r pendingBets
                                   (log_call WaitForRoundOutcomeOnBase st1) of
                              (Some e, st2) \<Rightarrow> (Some e, st2)
                            | (None, st2) \<Rightarrow> (None, finish_round gw rid st2))))))"

text \<open>
  The refund fallback of the \<^verbatim>\<open>catch\<close> block: the loop over the bets still
  pending, which skips a bet without wallet (or when the market has no mint).
\<close>

fun refund_loop :: "gateway \<Rightarrow> string option \<Rightarrow> bet list \<Rightarrow> state \<Rightarrow> state" where
  "refund_loop gw mint [] st = st"
| "refund_loop gw mint (x # rest) st =
     (if \<not> truthy (walletAddress x) \<or> \<not> truthy mint then refund_loop gw mint rest st
      else
        (case refundBet gw (bet_id x) of
           Inl e \<Rightarrow> refund_loop gw mint rest (log_call (RefundBet (bet_id x)) st)
         | Inr refundTx \<Rightarrow>
             refund_loop gw mint rest
               (Bet_updateOne (bet_id x)
                  (\<lambda>y. y\<lparr>bet.status := REFUNDED, payout := Some (stake x),
                          refundTxSignature := Some refundTx\<rparr>)
                  (log_call (RefundBet (bet_id x)) st))))"

definition refund_fallback :: "gateway \<Rightarrow> string \<Rightarrow> state \<Rightarrow> job_result \<times> state" where
  "refund_fallback gw rid st =
     (case Round_findById rid st of
        None \<Rightarrow> (Done, st)
      | Some r \<Rightarrow>
          (let pending = Bet_find_pending rid st in
           if pending \<noteq> [] then
             (case ensureRoundUndelegated gw 1 of
                Some e \<Rightarrow> (Thrown e, log_call EnsureRoundUndelegated st)
              | None \<Rightarrow>
                  (Done,
                   Round_updateOne rid (\<lambda>x. x\<lparr>round.status := FAILED\<rparr>)
                     (refund_loop gw (market_mintAddress r) pending
                        (log_call EnsureRoundUndelegated st))))
           else (Done, st)))"

definition processBetSettlementJob ::
  "(string \<Rightarrow> rat option) \<Rightarrow> gateway \<Rightarrow> string \<Rightarrow> state \<Rightarrow> job_result \<times> state" where
  "processBetSettlementJob S gw rid st =
     (case settle_try S gw rid st of
        (None, st1) \<Rightarrow> (Done, st1)
      | (Some errorMessage, st1) \<Rightarrow>
          if isRetryableSettlementError errorMessage then (Thrown errorMessage, st1)
          else if \<not> isOnchainTxError errorMessage then (Thrown errorMessage, st1)
          else refund_fallback gw rid st1)"

text \<open>
  \<^verbatim>\<open>refundBets\<close> of \<^verbatim>\<open>bets.service.ts\<close>, the refund pass of the admin endpoint. The
  per-bet refunds are started together (\<^verbatim>\<open>Promise.all\<close>); each touches its own bet,
  and the model runs them in the order of the list. It returns, per bet, the id and the
  stake refunded (0 when the refund did not go through).
\<close>

fun refundBets_loop :: "gateway \<Rightarrow> bet list \<Rightarrow> state \<Rightarrow> (nat \<times> rat) list \<times> state" where
  "refundBets_loop gw [] st = ([], st)"
| "refundBets_loop gw (x # rest) st =
     (if truthy (walletAddress x) then
        (case refundBet gw (bet_id x) of
           Inr refundTx \<Rightarrow>
             (case refundBets_loop gw rest
                     (Bet_updateOne (bet_id x)
                        (\<lambda>y. y\<lparr>bet.status := REFUNDED, payout := Some (stake x)\<rparr>)
                        (log_call (RefundBet (bet_id x)) st)) of
                (refunds, st1) \<Rightarrow> ((bet_id x, stake x) # refunds, st1))
         | Inl e \<Rightarrow>
             (case refundBets_loop gw rest (log_call (RefundBet (bet_id x)) st) of
                (refunds, st1) \<Rightarrow> ((bet_id x, 0) # refunds, st1)))
      else
        (case refundBets_loop gw rest st of
           (refunds, st1) \<Rightarrow> ((bet_id x, 0) # refunds, st1)))"

definition refundBets :: "gateway \<Rightarrow> string \<Rightarrow> state \<Rightarrow> (error + (nat \<times> rat) list) \<times> state" where
  "refundBets gw rid st =
     (case Round_findById rid st of
        None \<Rightarrow> (Inl (NotFoundError ''Round''), st)
      | Some r \<Rightarrow>
          if \<not> truthy (market_mintAddress r)
          then (Inl (ValidationError ''Missing mintAddress in market config''), st)
          else
            (case refundBets_loop gw (Bet_find_pending rid st) st of
               (refunds, st1) \<Rightarrow>
                 (Inr refunds, Round_updateOne rid (\<lambda>x. x\<lparr>round.status := FAILED\<rparr>) st1)))"

section \<open>Bet confirmation\<close>

text \<open>
  The on-chain bet account as \<^verbatim>\<open>decodeBetAccount\<close> reads it: the stake and the
  encoded selection, each of which can be missing. \<open>None\<close> for the whole record is a
  \<^verbatim>\<open>decodeBetAccount\<close> that throws.
\<close>

record decodedBet =
  dec_stake :: "rat option"
  dec_selection :: "encoded option"

type_synonym accountInfo = "decodedBet option"

text \<open>
  \<^verbatim>\<open>getAccountInfo\<close> is polled once and then up to 20 more times while the account
  is missing; \<open>chain n\<close> is the answer to poll number \<open>n\<close>.
\<close>

function poll_loop :: "(nat \<Rightarrow> accountInfo option) \<Rightarrow> nat \<Rightarrow> accountInfo option \<Rightarrow> accountInfo option" where
  "poll_loop chain i betAccountInfo =
     (if betAccountInfo = None \<and> i < 20 then poll_loop chain (i + 1) (chain (i + 1))
      else betAccountInfo)"
  by pat_completeness auto
termination
  by (relation "measure (\<lambda>(chain, i, info). 20 - i)") auto

declare poll_loop.simps [simp del]

text \<open>The queries and the Redis commands of the confirmation path.\<close>

definition Bet_findOne :: "string \<Rightarrow> state \<Rightarrow> bet option" where
  "Bet_findOne sig st = find (\<lambda>x. txSignature x = sig) (bets st)"

definition Bet_findById :: "nat \<Rightarrow> state \<Rightarrow> bet option" where
  "Bet_findById i st = find (\<lambda>x. bet_id x = i) (bets st)"

definition redis_set_nx :: "string \<Rightarrow> state \<Rightarrow> bool \<times> state" where
  "redis_set_nx sig st =
     (if sig \<in> locks st then (False, st) else (True, st\<lparr>locks := insert sig (locks st)\<rparr>))"

definition redis_set_cache :: "string \<Rightarrow> nat \<Rightarrow> state \<Rightarrow> state" where
  "redis_set_cache sig i st = st\<lparr>cache := (cache st)(sig \<mapsto> i)\<rparr>"

definition redis_hset :: "string \<Rightarrow> nat \<Rightarrow> state \<Rightarrow> state" where
  "redis_hset rid i st = st\<lparr>roundBets := (roundBets st)(rid := List.insert i (roundBets st rid))\<rparr>"

definition redis_incr :: "string \<Rightarrow> state \<Rightarrow> state" where
  "redis_incr rid st = st\<lparr>betCount := (betCount st)(rid := Suc (betCount st rid))\<rparr>"

text \<open>
  Modelled from the spec: the Bet schema is declared in \<^verbatim>\<open>@/config/database\<close>, which
  is not among the sources. The spec gives a Bet a unique id and a unique
  \<^verbatim>\<open>txSignature\<close> (the idempotency key), and \<^verbatim>\<open>processBetConfirmation\<close> handles the
  duplicate-key error (code 11000) of \<^verbatim>\<open>Bet.create\<close>. \<open>Bet_create\<close> stores a new
  document under a fresh id unless a stored bet has the signature; \<open>payout\<close> and the
  two transaction signatures are not given, so they are absent.
\<close>

definition fresh_id :: "bet list \<Rightarrow> nat" where
  "fresh_id bs = Suc (fold max (map bet_id bs) 0)"

definition Bet_create ::
  "string \<Rightarrow> string \<Rightarrow> selection \<Rightarrow> rat \<Rightarrow> rat \<Rightarrow> string \<Rightarrow> state \<Rightarrow> (error + bet) \<times> state" where
  "Bet_create uid rid sel stk od sig st =
     (if \<exists>x\<in>set (bets st). txSignature x = sig then (Inl DuplicateKey, st)
      else
        (let doc = \<lparr>bet_id = fresh_id (bets st), userId = uid, walletAddress = users st uid,
                    roundId = rid, selection = sel, stake = stk, odds = od,
                    bet.status = PENDING, payout = None, txSignature = sig,
                    settleTxSignature = None, refundTxSignature = None\<rparr>
         in (Inr doc, st\<lparr>bets := bets st @ [doc]\<rparr>)))"

text \<open>
  What a confirmation returns: the stored bet with the caller's signature
  (\<^verbatim>\<open>{ ...bet, txSignature, betPda }\<close>; \<^verbatim>\<open>betPda\<close> only names the account that is
  polled, whose answers are \<open>chain\<close>).
\<close>

definition confirmed :: "bet \<Rightarrow> string \<Rightarrow> bet" where
  "confirmed x sig = x\<lparr>txSignature := sig\<rparr>"

text \<open>
  \<^verbatim>\<open>confirmBet\<close> runs between other calls: at every \<^verbatim>\<open>await\<close> other confirmations,
  settlement runs and lock expiry can change the state. \<open>E n\<close> is what they do to the
  state once the \<open>n\<close>-th awaited command of this call has run: 0 the lock command,
  1 \<^verbatim>\<open>Bet.findOne\<close>, 2 the cache read, 3 \<^verbatim>\<open>Bet.findById\<close>, 4 \<^verbatim>\<open>Round.findById\<close>,
  5 the polling of the bet account, 6 \<^verbatim>\<open>Bet.create\<close>, and 7 to 9 the commands after
  it. A call that runs alone has \<open>E n = (\<lambda>st. st)\<close>. \<open>confirm_round\<close> is the part
  of \<^verbatim>\<open>confirmBet\<close> after the lock and the lookups.
\<close>

definition processBetConfirmation ::
  "(nat \<Rightarrow> state \<Rightarrow> state) \<Rightarrow> (string \<Rightarrow> rat option) \<Rightarrow> string \<Rightarrow> string \<Rightarrow> round
     \<Rightarrow> accountInfo \<Rightarrow> string \<Rightarrow> rat \<Rightarrow> selection \<Rightarrow> state \<Rightarrow> (error + bet) \<times> state" where
  "processBetConfirmation E S uid rid r betAccountInfo sig clientStake clientSelection st =
     (let finalStake =
            (case betAccountInfo of
               Some decoded \<Rightarrow> (case dec_stake decoded of Some s \<Rightarrow> s | None \<Rightarrow> clientStake)
             | None \<Rightarrow> clientStake);
          finalSelection =
            (case betAccountInfo of
               Some decoded \<Rightarrow>
                 (case dec_selection decoded of
                    Some enc \<Rightarrow> decodeSelection enc (market_type r)
                  | None \<Rightarrow> clientSelection)
             | None \<Rightarrow> clientSelection);
          houseEdgeBps = (case market_houseEdgeBps r of Some e \<Rightarrow> e | None \<Rightarrow> 0)
      in case Bet_create uid rid finalSelection finalStake
                (calculateOdds S finalSelection (market_type r) houseEdgeBps) sig st of
           (Inl err, st1) \<Rightarrow>
             (if err = DuplicateKey then
                (case Bet_findOne sig (E 6 st1) of
                   Some existing \<Rightarrow>
                     (Inr (confirmed existing sig),
                      E 8 (redis_set_cache sig (bet_id existing) (E 7 (E 6 st1))))
                 | None \<Rightarrow> (Inl err, E 7 (E 6 st1)))
              else (Inl err, E 6 st1))
         | (Inr x, st1) \<Rightarrow>
             (Inr (confirmed x sig),
              E 9 (redis_incr rid
                (E 8 (redis_hset rid (bet_id x)
                  (E 7 (redis_set_cache sig (bet_id x) (E 6 st1))))))))"

definition confirm_round ::
  "(nat \<Rightarrow> state \<Rightarrow> state) \<Rightarrow> (string \<Rightarrow> rat option) \<Rightarrow> (nat \<Rightarrow> accountInfo option)
     \<Rightarrow> string \<Rightarrow> string \<Rightarrow> selection \<Rightarrow> rat \<Rightarrow> string \<Rightarrow> state \<Rightarrow> (error + bet) \<times> state" where
  "confirm_round E S chain uid rid sel stk sig st =
     (case Round_findById rid st of
        None \<Rightarrow> (Inl (NotFoundError ''Round''), E 4 st)
      | Some r \<Rightarrow>
          if round.status r \<noteq> PREDICTING \<and> round.status r \<noteq> LOCKED
          then (Inl (ConflictError ''Round is no longer accepting bet confirmations''), E 4 st)
          else
            (case poll_loop chain 0 (chain 0) of
               Some betAccountInfo \<Rightarrow>
                 processBetConfirmation E S uid rid r betAccountInfo sig stk sel (E 5 (E 4 st))
             | None \<Rightarrow>
                 (Inl (ValidationError
                         ''Bet transaction not confirmed on-chain; please try again''),
                  E 5 (E 4 st))))"

definition confirmBet ::
  "(nat \<Rightarrow> state \<Rightarrow> state) \<Rightarrow> (string \<Rightarrow> rat option) \<Rightarrow> (nat \<Rightarrow> accountInfo option)
     \<Rightarrow> string \<Rightarrow> string \<Rightarrow> selection \<Rightarrow> rat \<Rightarrow> string \<Rightarrow> state \<Rightarrow> (error + bet) \<times> state" where
  "confirmBet E S chain uid rid sel stk sig st =
     (case redis_set_nx sig st of
        (True, st1) \<Rightarrow> confirm_round E S chain uid rid sel stk sig (E 0 st1)
      | (False, st1) \<Rightarrow>
          (case Bet_findOne sig (E 0 st1) of
             Some duplicate \<Rightarrow> (Inr (confirmed duplicate sig), E 1 (E 0 st1))
           | None \<Rightarrow>
               (case cache (E 1 (E 0 st1)) sig of
                  Some existingBetId \<Rightarrow>
                    (case Bet_findById existingBetId (E 2 (E 1 (E 0 st1))) of
                       Some existingBet \<Rightarrow>
                         (Inr (confirmed existingBet sig), E 3 (E 2 (E 1 (E 0 st1))))
                     | None \<Rightarrow>
                         confirm_round E S chain uid rid sel stk sig (E 3 (E 2 (E 1 (E 0 st1)))))
                | None \<Rightarrow> confirm_round E S chain uid rid sel stk sig (E 2 (E 1 (E 0 st1))))))"

section \<open>The effect of one loop iteration\<close>

text \<open>
  What the settlement loop writes to a stored bet (\<open>settled\<close>: nothing when the
  on-chain settle call throws), and what the refund loop of the fallback writes to it
  (\<open>refunded\<close>: nothing when the bet is skipped or the on-chain refund throws).
\<close>

definition settled :: "(string \<Rightarrow> rat option) \<Rightarrow> gateway \<Rightarrow> outcome \<Rightarrow> round \<Rightarrow> bet \<Rightarrow> bet" where
  "settled S gw oc r x =
     (case settleBet gw (bet_id x) of
        Inl e \<Rightarrow> x
      | Inr settleTx \<Rightarrow>
          x\<lparr>bet.status := (if checkBetWon S (selection x) oc (market_type r) then WON else LOST),
            payout := Some (if checkBetWon S (selection x) oc (market_type r)
                            then stake x * odds x else 0),
            settleTxSignature := Some settleTx\<rparr>)"

definition refunded :: "gateway \<Rightarrow> string option \<Rightarrow> bet \<Rightarrow> bet" where
  "refunded gw mint x =
     (if truthy (walletAddress x) \<and> truthy mint then
        (case refundBet gw (bet_id x) of
           Inl e \<Rightarrow> x
         | Inr refundTx \<Rightarrow>
             x\<lparr>bet.status := REFUNDED, payout := Some (stake x),
               refundTxSignature := Some refundTx\<rparr>)
      else x)"

section \<open>Invariants of the store\<close>

text \<open>
  \<open>held sig i st\<close>: a stored bet has the id \<open>i\<close> and the signature \<open>sig\<close>.
  \<open>persists st st'\<close>: every bet of \<open>st\<close> is still stored in \<open>st'\<close> under its id and
  signature (bets are never deleted, and neither field is ever written).
  \<open>store_ok st\<close>: ids are unique, signatures are unique (the unique index), and the
  cache maps a signature to the id of a stored bet with that signature.
  \<open>interference_ok E\<close>: what runs between the steps of a call keeps \<open>store_ok\<close> and
  deletes no bet.
\<close>

definition held :: "string \<Rightarrow> nat \<Rightarrow> state \<Rightarrow> bool" where
  "held sig i st = (\<exists>y\<in>set (bets st). bet_id y = i \<and> txSignature y = sig)"

definition persists :: "state \<Rightarrow> state \<Rightarrow> bool" where
  "persists st st' = (\<forall>x\<in>set (bets st). held (txSignature x) (bet_id x) st')"

definition store_ok :: "state \<Rightarrow> bool" where
  "store_ok st =
     (distinct (map bet_id (bets st)) \<and> distinct (map txSignature (bets st))
      \<and> (\<forall>sig i. cache st sig = Some i \<longrightarrow> held sig i st))"

definition interference_ok :: "(nat \<Rightarrow> state \<Rightarrow> state) \<Rightarrow> bool" where
  "interference_ok E = (\<forall>n st. store_ok st \<longrightarrow> store_ok (E n st) \<and> persists st (E n st))"

definition ok_from :: "state \<Rightarrow> state \<Rightarrow> bool" where
  "ok_from st0 st = (store_ok st \<and> persists st0 st)"

definition okh :: "state \<Rightarrow> string \<Rightarrow> nat \<Rightarrow> state \<Rightarrow> bool" where
  "okh st0 sig i st = (ok_from st0 st \<and> held sig i st)"

definition returns_stored :: "string \<Rightarrow> state \<Rightarrow> (error + bet) \<times> state \<Rightarrow> bool" where
  "returns_stored sig st0 out =
     (ok_from st0 (snd out) \<and> (\<forall>x. fst out = Inr x \<longrightarrow> held sig (bet_id x) (snd out)))"

text \<open>The ids and signatures of the stored bets, in order.\<close>

definition keys_of :: "state \<Rightarrow> (nat \<times> string) list" where
  "keys_of st = map (\<lambda>x. (bet_id x, txSignature x)) (bets st)"

text \<open>
  The payout a bet has in each status, and the states the three operations reach from a
  state with no bets and an empty cache (rounds, users and locks change outside these
  operations).
\<close>

definition payout_ok :: "bet \<Rightarrow> bool" where
  "payout_ok x =
     (case bet.status x of
        PENDING \<Rightarrow> payout x = None
      | WON \<Rightarrow> payout x = Some (stake x * odds x)
      | LOST \<Rightarrow> payout x = Some 0
      | REFUNDED \<Rightarrow> payout x = Some (stake x))"

inductive reachable :: "state \<Rightarrow> bool" where
  start: "bets st = [] \<Longrightarrow> cache st = (\<lambda>_. None) \<Longrightarrow> reachable st"
| confirm: "reachable st \<Longrightarrow>
            reachable (snd (confirmBet (\<lambda>n s. s) S chain uid rid sel stk sig st))"
| settle: "reachable st \<Longrightarrow> reachable (snd (processBetSettlementJob S gw rid st))"
| refund: "reachable st \<Longrightarrow> reachable (snd (refundBets gw rid st))"
| lifecycle: "reachable st \<Longrightarrow> reachable (st\<lparr>rounds := rs, users := us, locks := ls\<rparr>)"

section \<open>Example data\<close>

text \<open>
  A locked, delegated round with outcome 37, a pending range bet of stake 10 at odds 2,
  a state holding one round under the id \<open>r1\<close>, and a gateway whose calls all
  succeed. The examples below vary them.
\<close>

definition round0 :: round where
  "round0 = \<lparr>roundNumber = 7, round.status = LOCKED, outcome = Some (Numeric 37),
             delegateTxHash = Some ''dtx'', undelegateTxHash = None,
             baseLayerUndelegateTxHash = None, market_type = PICK_RANGE,
             market_mintAddress = Some ''mint'', market_houseEdgeBps = Some 0\<rparr>"

definition bet0 :: "nat \<Rightarrow> rat \<Rightarrow> rat \<Rightarrow> bet" where
  "bet0 i lo hi =
     \<lparr>bet_id = i, userId = ''user'', walletAddress = Some ''wallet'', roundId = ''r1'',
      selection = obj [(''type'', JStr ''range''), (''min'', JNum lo), (''max'', JNum hi)],
      stake = 10, odds = 2, bet.status = PENDING, payout = None, txSignature = ''sig'',
      settleTxSignature = None, refundTxSignature = None\<rparr>"

definition state0 :: "round \<Rightarrow> bet list \<Rightarrow> state" where
  "state0 r bs = \<lparr>rounds = (\<lambda>_. None)(''r1'' \<mapsto> r), bets = bs,
                  users = (\<lambda>_. Some ''wallet''), locks = {}, cache = (\<lambda>_. None),
                  roundBets = (\<lambda>_. []), betCount = (\<lambda>_. 0), calls = []\<rparr>"

definition gateway0 :: gateway where
  "gateway0 = \<lparr>commitAndUndelegateRoundER = (\<lambda>_. Inr (''ertx'', ''basetx'')),
               ensureRoundUndelegated = (\<lambda>_. None), waitForRoundOutcomeOnBase = None,
               settleBet = (\<lambda>_. Inr ''settletx''), settleRound = None,
               refundBet = (\<lambda>_. Inr ''refundtx'')\<rparr>"

text \<open>
  An on-chain bet account holding stake 10 and the encoded range \<open>lo..hi\<close>; the state
  after one confirmation whose lock has expired; a round that is not delegated, the
  state after a confirmation on it, and the state after the settlement run that
  follows.
\<close>

definition account0 :: "rat \<Rightarrow> rat \<Rightarrow> nat \<Rightarrow> accountInfo option" where
  "account0 lo hi = (\<lambda>_. Some (Some \<lparr>dec_stake = Some 10,
       dec_selection = Some \<lparr>kind = 0, a = JNum lo, b = JNum hi, c = JNum 0\<rparr>\<rparr>))"

definition state1 :: state where
  "state1 = (state0 round0 [bet0 1 51 100])\<lparr>cache := (\<lambda>_. None)(''sig'' \<mapsto> 1)\<rparr>"

definition round1 :: round where
  "round1 = round0\<lparr>delegateTxHash := None\<rparr>"

definition state_confirmed :: "rat \<Rightarrow> rat \<Rightarrow> state" where
  "state_confirmed lo hi =
     snd (confirmBet (\<lambda>n s. s) (\<lambda>_. None) (account0 lo hi) ''user'' ''r1'' (\<lambda>_. JUndef) 10 ''sig''
            (state0 round1 []))"

definition state_settled :: "rat \<Rightarrow> rat \<Rightarrow> state" where
  "state_settled lo hi =
     snd (processBetSettlementJob (\<lambda>_. None) gateway0 ''r1'' (state_confirmed lo hi))"

section \<open>Properties of the odds engine\<close>

text \<open>The edge factor lies in (0, 1], falls as the house edge grows and sees the clamped edge only.\<close>

lemma edgeFactor_pos: "0 < edgeFactor e"
  by (simp add: edgeFactor_def add_pos_nonneg)

lemma edgeFactor_antimono: "e1 \<le> e2 \<Longrightarrow> edgeFactor e2 \<le> edgeFactor e1"
  unfolding edgeFactor_def
  by (intro divide_left_mono) (auto simp: add_pos_nonneg intro!: mult_pos_pos)

lemma edgeFactor_clamp: "edgeFactor (min (max e 0) 10000) = edgeFactor e"
  by (simp add: edgeFactor_def)

lemma fromEqualBins_mono: "0 \<le> n \<Longrightarrow> ef2 \<le> ef1 \<Longrightarrow> fromEqualBins ef2 n \<le> fromEqualBins ef1 n"
  unfolding fromEqualBins_def
  by (intro max.mono order_refl divide_right_mono of_int_le_iff[THEN iffD2] floor_mono mult_right_mono mult_left_mono) auto

lemma fromProbability_mono:
  assumes "0 \<le> den" "0 \<le> ef2" "ef2 \<le> ef1"
  shows "fromProbability ef2 num den \<le> fromProbability ef1 num den"
proof (cases num)
  case None
  then show ?thesis by (simp add: fromProbability_def)
next
  case (Some n)
  show ?thesis
  proof (cases "n = 0 \<or> den = 0")
    case True
    then show ?thesis using Some by (auto simp add: fromProbability_def)
  next
    case False
    show ?thesis
    proof (cases "0 < n")
      case True
      then have "0 \<le> den / n" using assms by simp
      then have "den / n * ef2 * 100 \<le> den / n * ef1 * 100"
        using assms by (intro mult_right_mono mult_left_mono) auto
      then have "\<lfloor>den / n * ef2 * 100\<rfloor> \<le> \<lfloor>den / n * ef1 * 100\<rfloor>"
        by (rule floor_mono)
      then show ?thesis using Some False
        by (simp add: fromProbability_def divide_right_mono max.coboundedI2)
    next
      case F2: False
      then have "den / n \<le> 0" using assms by (simp add: divide_nonneg_neg divide_le_0_iff)
      then have *: "den / n * ef * 100 \<le> 0" if "0 \<le> ef" for ef
        using that by (intro mult_nonpos_nonneg) auto
      have "fromProbability ef num den = 1" if "0 \<le> ef" for ef
      proof -
        have "\<lfloor>den / n * ef * 100\<rfloor> \<le> 0"
          using floor_mono[OF *[OF that]] by simp
        then have "(of_int \<lfloor>den / n * ef * 100\<rfloor> :: rat) \<le> 0"
          by simp
        then have "(of_int \<lfloor>den / n * ef * 100\<rfloor> :: rat) / 100 \<le> 0"
          by (rule divide_nonpos_pos) simp
        then have le1: "(of_int \<lfloor>den / n * ef * 100\<rfloor> :: rat) / 100 \<le> 1"
          by linarith
        have "fromProbability ef num den = max 1 (of_int \<lfloor>den / n * ef * 100\<rfloor> / 100)"
          using Some False by (simp add: fromProbability_def)
        also have "\<dots> = 1"
          using le1 by (rule max_absorb1)
        finally show ?thesis .
      qed
      then show ?thesis using assms by simp
    qed
  qed
qed

text \<open>The binomial sum of the community-seed market is at least 1 for a tolerance that is a number.\<close>

lemma choose_loop_nonneg:
  "0 \<le> numer \<Longrightarrow> 0 \<le> denom \<Longrightarrow> 0 \<le> i \<Longrightarrow> k \<le> n \<Longrightarrow>
   0 \<le> fst (choose_loop n k i numer denom) \<and> 0 \<le> snd (choose_loop n k i numer denom)"
proof (induction n k i numer denom rule: choose_loop.induct)
  case (1 n k i numer denom)
  show ?case
  proof (cases "i < k")
    case True
    then have "0 \<le> numer * of_int (n - i)" "0 \<le> denom * of_int (i + 1)"
      using "1.prems" by (auto intro!: mult_nonneg_nonneg)
    with True "1.IH" "1.prems" show ?thesis
      by (subst (1 2) choose_loop.simps) simp
  next
    case False
    then show ?thesis using "1.prems" by (subst (1 2) choose_loop.simps) simp
  qed
qed

lemma choose_js_nonneg: "0 \<le> choose_js n k"
proof (cases "k < 0 \<or> k > n")
  case True
  then show ?thesis by (simp add: choose_js_def)
next
  case False
  then have "min k (n - k) \<le> n" by auto
  from choose_loop_nonneg[OF _ _ _ this, of 1 1 0]
  have "0 \<le> fst (choose_loop n (min k (n - k)) 0 1 1)" "0 \<le> snd (choose_loop n (min k (n - k)) 0 1 1)"
    by auto
  then show ?thesis using False
    by (auto simp: choose_js_def split: prod.splits)
qed

lemma sum_choose_ge: "num \<le> sum_choose t k num"
proof (induction t k num rule: sum_choose.induct)
  case (1 t k num)
  show ?case
  proof (cases "of_int k \<le> t")
    case True
    have "num \<le> num + choose_js 8 k" using choose_js_nonneg[of 8 k] by simp
    also have "\<dots> \<le> sum_choose t (k + 1) (num + choose_js 8 k)" using "1.IH"[OF True] .
    finally show ?thesis using True by (subst sum_choose.simps) simp
  next
    case False
    then show ?thesis by (subst sum_choose.simps) simp
  qed
qed

lemma choose_js_8_0: "choose_js 8 0 = 1"
  by (simp add: choose_js_def choose_loop.simps)

lemma sum_choose_pos: "0 \<le> t \<Longrightarrow> 1 \<le> sum_choose t 0 0"
proof -
  assume "0 \<le> t"
  then have "sum_choose t 0 0 = sum_choose t 1 1"
    by (subst sum_choose.simps) (simp add: choose_js_8_0)
  then show ?thesis using sum_choose_ge[of 1 t 1] by simp
qed

lemma counts_nonzero: "i < 7 \<Longrightarrow> counts ! i \<noteq> 0"
proof -
  assume "i < 7"
  then have "counts ! i \<in> set counts" by (intro nth_mem) (simp add: counts_def)
  moreover have "0 \<notin> set counts" by (simp add: counts_def)
  ultimately show ?thesis by metis
qed

section \<open>Claims about the odds engine\<close>

text \<open>
  C7 (amended). For every fixed selection and market type, \<open>calculateOdds\<close> is antitone
  in \<open>houseEdgeBps\<close>: a larger house edge never gives a larger multiplier. The
  multiplier can stay the same above the 1.0 floor, because it is rounded down to two
  decimals (and is 0 for an unwinnable ratio). The edge is clamped to [0, 10000]:
  \<open>calculateOdds\<close> at \<open>e\<close> equals \<open>calculateOdds\<close> at \<open>min (max e 0) 10000\<close>.
\<close>

theorem calculateOdds_antitone_clamped:
  "(e1 \<le> e2 \<longrightarrow> calculateOdds S s mt e2 \<le> calculateOdds S s mt e1)
   \<and> calculateOdds S s mt e = calculateOdds S s mt (min (max e 0) 10000)"
proof -
  have "calculateOdds S s mt e2 \<le> calculateOdds S s mt e1" if le: "e1 \<le> e2"
  proof -
    have ef: "edgeFactor e2 \<le> edgeFactor e1" "0 \<le> edgeFactor e2"
      using le edgeFactor_antimono edgeFactor_pos[of e2] by auto
    show ?thesis
      by (cases mt)
        (auto simp: Let_def fromEqualBins_mono fromProbability_mono ef split: option.splits)
  qed
  moreover have "calculateOdds S s mt (min (max e 0) 10000) = calculateOdds S s mt e"
    by (cases mt) (simp_all only: calculateOdds.simps edgeFactor_clamp)
  ultimately show ?thesis by simp
qed

theorem calculateOdds_antitone_clamped_witness:
  "(0::rat) \<le> 500
   \<and> calculateOdds (\<lambda>_. None) (\<lambda>_. JUndef) LAST_DIGIT 500
       \<le> calculateOdds (\<lambda>_. None) (\<lambda>_. JUndef) LAST_DIGIT 0
   \<and> calculateOdds (\<lambda>_. None) (\<lambda>_. JUndef) LAST_DIGIT 20000
       = calculateOdds (\<lambda>_. None) (\<lambda>_. JUndef) LAST_DIGIT (min (max 20000 0) 10000)"
  using calculateOdds_antitone_clamped [of 0 500 "\<lambda>_. None" "\<lambda>_. JUndef" LAST_DIGIT 20000]
  by simp

text \<open>
  C7, as stated, fails: with the parity market, raising the house edge from 1 to 2 basis
  points leaves the multiplier at 1.99, which is neither smaller nor the 1.0 floor.
\<close>

theorem calculateOdds_not_strict:
  "calculateOdds (\<lambda>_. None) (\<lambda>_. JUndef) EVEN_ODD 1 = 199 / 100
   \<and> calculateOdds (\<lambda>_. None) (\<lambda>_. JUndef) EVEN_ODD 2 = 199 / 100
   \<and> \<not> (calculateOdds (\<lambda>_. None) (\<lambda>_. JUndef) EVEN_ODD 2
           < calculateOdds (\<lambda>_. None) (\<lambda>_. JUndef) EVEN_ODD 1
         \<or> calculateOdds (\<lambda>_. None) (\<lambda>_. JUndef) EVEN_ODD 2 = 1)"
proof -
  have 1: "calculateOdds (\<lambda>_. None) (\<lambda>_. JUndef) EVEN_ODD 1 = 199 / 100"
    by (simp add: fromEqualBins_def edgeFactor_def floor_eq_iff)
  have 2: "calculateOdds (\<lambda>_. None) (\<lambda>_. JUndef) EVEN_ODD 2 = 199 / 100"
    by (simp add: fromEqualBins_def edgeFactor_def floor_eq_iff)
  show ?thesis unfolding 1 2 by simp
qed

text \<open>
  C8 (amended). \<open>fromProbability\<close> returns 0 when the numerator is zero or is not a
  number (NaN), or the denominator is zero, and at least 1 otherwise. For a range whose
  width \<open>max - min + 1\<close> does not divide 100, \<open>calculateOdds\<close> is
  \<open>fromProbability\<close> of the width and 100: 0 for width 0, at least 1 for any other
  width that is a number, and 0 when a bound is missing or not numeric, so that the
  width is NaN. For the shape/color/size, pattern and community-seed markets the
  numerator is a number and never zero and the multiplier is at least 1 (for the
  community seed: when the tolerance is a number; a tolerance that is not a number gives
  an empty sum, numerator zero, and the multiplier 0). In every market the multiplier is
  0 or at least 1.
\<close>

theorem calculateOdds_ratio_zero_or_floor:
  "(fromProbability ef (Some 0) den = 0 \<and> fromProbability ef num 0 = 0
     \<and> (n \<noteq> 0 \<and> den \<noteq> 0 \<longrightarrow> 1 \<le> fromProbability ef (Some n) den))
   \<and> (s ''type'' = JStr ''range'' \<and> toNumber S (s ''max'') = Some hi
        \<and> toNumber S (s ''min'') = Some lo
        \<and> \<not> (hi - lo + 1 > 0 \<and> js_rem 100 (hi - lo + 1) = 0) \<longrightarrow>
        calculateOdds S s PICK_RANGE e = fromProbability (edgeFactor e) (Some (hi - lo + 1)) 100
        \<and> (hi - lo + 1 = 0 \<longrightarrow> calculateOdds S s PICK_RANGE e = 0)
        \<and> (hi - lo + 1 \<noteq> 0 \<longrightarrow> 1 \<le> calculateOdds S s PICK_RANGE e))
   \<and> 1 \<le> calculateOdds S s SHAPE_COLOR e
   \<and> 1 \<le> calculateOdds S s PATTERN_OF_DAY e
   \<and> (toNumber S (nullish (s ''tolerance'') (nullish (s ''t'') (JNum 0))) \<noteq> None
        \<longrightarrow> 1 \<le> calculateOdds S s COMMUNITY_SEED e)
   \<and> (toNumber S (nullish (s ''tolerance'') (nullish (s ''t'') (JNum 0))) = None
        \<longrightarrow> calculateOdds S s COMMUNITY_SEED e = 0)
   \<and> fromProbability ef None den = 0
   \<and> (s ''type'' = JStr ''range''
        \<and> (toNumber S (s ''max'') = None \<or> toNumber S (s ''min'') = None) \<longrightarrow>
        calculateOdds S s PICK_RANGE e = fromProbability (edgeFactor e) None 100
        \<and> calculateOdds S s PICK_RANGE e = 0)
   \<and> (calculateOdds S s mt e = 0 \<or> 1 \<le> calculateOdds S s mt e)"
proof -
  have p1: "fromProbability ef (Some 0) den = 0 \<and> fromProbability ef num 0 = 0
     \<and> (n \<noteq> 0 \<and> den \<noteq> 0 \<longrightarrow> 1 \<le> fromProbability ef (Some n) den)"
    by (simp add: fromProbability_def split: option.splits)
  have p2: "s ''type'' = JStr ''range'' \<and> toNumber S (s ''max'') = Some hi
        \<and> toNumber S (s ''min'') = Some lo
        \<and> \<not> (hi - lo + 1 > 0 \<and> js_rem 100 (hi - lo + 1) = 0) \<longrightarrow>
        calculateOdds S s PICK_RANGE e = fromProbability (edgeFactor e) (Some (hi - lo + 1)) 100
        \<and> (hi - lo + 1 = 0 \<longrightarrow> calculateOdds S s PICK_RANGE e = 0)
        \<and> (hi - lo + 1 \<noteq> 0 \<longrightarrow> 1 \<le> calculateOdds S s PICK_RANGE e)"
    by (auto simp: fromProbability_def Let_def)
  have p3: "1 \<le> calculateOdds S s SHAPE_COLOR e"
    by (simp add: fromProbability_def)
  have p4: "1 \<le> calculateOdds S s PATTERN_OF_DAY e"
  proof -
    have "counts ! 6 \<noteq> 0" by (rule counts_nonzero) simp
    moreover have "counts_at idx = Some m \<Longrightarrow> m \<noteq> 0" for idx m
    proof -
      assume h: "counts_at idx = Some m"
      then have "0 \<le> idx" "idx < 7" "m = counts ! nat \<lfloor>idx\<rfloor>"
        by (auto simp: counts_at_def split: if_splits)
      moreover from this have "nat \<lfloor>idx\<rfloor> < 7"
        by (simp add: floor_less_iff nat_less_iff)
      ultimately show "m \<noteq> 0" using counts_nonzero by simp
    qed
    ultimately show ?thesis
      by (auto simp: fromProbability_def Let_def split: option.splits)
  qed
  have p5: "toNumber S (nullish (s ''tolerance'') (nullish (s ''t'') (JNum 0))) \<noteq> None
        \<longrightarrow> 1 \<le> calculateOdds S s COMMUNITY_SEED e"
  proof
    assume "toNumber S (nullish (s ''tolerance'') (nullish (s ''t'') (JNum 0))) \<noteq> None"
    then obtain x where x: "toNumber S (nullish (s ''tolerance'') (nullish (s ''t'') (JNum 0))) = Some x"
      by auto
    have "1 \<le> sum_choose (max 0 (min 8 x)) 0 0" by (rule sum_choose_pos) simp
    then have "sum_choose (max 0 (min 8 x)) 0 0 \<noteq> 0" by linarith
    then show "1 \<le> calculateOdds S s COMMUNITY_SEED e"
      using x by (simp add: fromProbability_def Let_def)
  qed
  have p6: "toNumber S (nullish (s ''tolerance'') (nullish (s ''t'') (JNum 0))) = None
        \<longrightarrow> calculateOdds S s COMMUNITY_SEED e = 0"
    by (simp add: fromProbability_def)
  have p7: "fromProbability ef None den = 0"
    by (simp add: fromProbability_def)
  have p8: "s ''type'' = JStr ''range''
        \<and> (toNumber S (s ''max'') = None \<or> toNumber S (s ''min'') = None) \<longrightarrow>
        calculateOdds S s PICK_RANGE e = fromProbability (edgeFactor e) None 100
        \<and> calculateOdds S s PICK_RANGE e = 0"
    by (auto simp: fromProbability_def split: option.splits)
  have q: "fromProbability f m d = 0 \<or> 1 \<le> fromProbability f m d" for f m d
    by (simp add: fromProbability_def split: option.splits)
  have b: "1 \<le> fromEqualBins f m" for f m
    by (simp add: fromEqualBins_def)
  have p9: "calculateOdds S s mt e = 0 \<or> 1 \<le> calculateOdds S s mt e"
  proof (cases mt)
    case PICK_RANGE
    then show ?thesis using q b by (simp add: Let_def split: option.splits)
  next
    case SHAPE_COLOR
    then show ?thesis using p3 by simp
  next
    case PATTERN_OF_DAY
    then show ?thesis using p4 by simp
  next
    case COMMUNITY_SEED
    then show ?thesis using p5 p6 by blast
  qed (simp_all add: b)
  from p1 p2 p3 p4 p5 p6 p7 p8 p9 show ?thesis by blast
qed

theorem calculateOdds_ratio_zero_or_floor_witness:
  "calculateOdds (\<lambda>_. None)
      (obj [(''type'', JStr ''range''), (''min'', JNum 5), (''max'', JNum 4)]) PICK_RANGE 0 = 0
   \<and> 1 \<le> calculateOdds (\<lambda>_. None)
      (obj [(''type'', JStr ''range''), (''min'', JNum 1), (''max'', JNum 30)]) PICK_RANGE 0
   \<and> 1 \<le> calculateOdds (\<lambda>_. None) (obj [(''type'', JStr ''community'')]) COMMUNITY_SEED 0
   \<and> 1 \<le> fromProbability 1 (Some 18) 72
   \<and> calculateOdds (\<lambda>_. None)
      (obj [(''type'', JStr ''range''), (''max'', JNum 10)]) PICK_RANGE 0 = 0"
proof -
  have "\<lfloor>(10::rat) / 3\<rfloor> = 3"
    by (simp add: floor_eq_iff)
  then have r: "js_rem 100 30 \<noteq> 0"
    by (simp add: js_rem_def js_trunc_def)
  have 1: "calculateOdds (\<lambda>_. None)
      (obj [(''type'', JStr ''range''), (''min'', JNum 5), (''max'', JNum 4)]) PICK_RANGE 0 = 0"
    using calculateOdds_ratio_zero_or_floor
          [of 1 72 None 18 "obj [(''type'', JStr ''range''), (''min'', JNum 5), (''max'', JNum 4)]"
              "\<lambda>_. None" 4 5 0]
    by (simp add: obj_def)
  have 2: "1 \<le> calculateOdds (\<lambda>_. None)
      (obj [(''type'', JStr ''range''), (''min'', JNum 1), (''max'', JNum 30)]) PICK_RANGE 0"
    using r calculateOdds_ratio_zero_or_floor
          [of 1 72 None 18 "obj [(''type'', JStr ''range''), (''min'', JNum 1), (''max'', JNum 30)]"
              "\<lambda>_. None" 30 1 0]
    by (simp add: obj_def)
  have 3: "1 \<le> calculateOdds (\<lambda>_. None) (obj [(''type'', JStr ''community'')]) COMMUNITY_SEED 0
     \<and> 1 \<le> fromProbability 1 (Some 18) 72"
    using calculateOdds_ratio_zero_or_floor
          [of 1 72 None 18 "obj [(''type'', JStr ''community'')]" "\<lambda>_. None" 0 0 0]
    by (simp add: obj_def)
  have 4: "calculateOdds (\<lambda>_. None)
      (obj [(''type'', JStr ''range''), (''max'', JNum 10)]) PICK_RANGE 0 = 0"
    using calculateOdds_ratio_zero_or_floor
          [of 1 72 None 18 "obj [(''type'', JStr ''range''), (''max'', JNum 10)]"
              "\<lambda>_. None" 0 0 0]
    by (simp add: obj_def)
  from 1 2 3 4 show ?thesis by blast
qed

text \<open>
  C8, as stated, fails: a range selection with a lower bound and no upper bound passes
  \<open>validateSelection\<close> (each comparison with the missing bound is false); its width
  is NaN, which is not zero, the denominator is 100, and the multiplier is 0, below 1.
\<close>

theorem calculateOdds_nan_width:
  "validateSelection (\<lambda>_. None) 10
      (obj [(''type'', JStr ''range''), (''min'', JNum 1)]) PICK_RANGE = Inr ()
   \<and> toNumber (\<lambda>_. None) (obj [(''type'', JStr ''range''), (''min'', JNum 1)] ''max'') = None
   \<and> calculateOdds (\<lambda>_. None)
       (obj [(''type'', JStr ''range''), (''min'', JNum 1)]) PICK_RANGE 0
       = fromProbability (edgeFactor 0) None 100
   \<and> calculateOdds (\<lambda>_. None)
       (obj [(''type'', JStr ''range''), (''min'', JNum 1)]) PICK_RANGE 0 = 0
   \<and> \<not> 1 \<le> calculateOdds (\<lambda>_. None)
       (obj [(''type'', JStr ''range''), (''min'', JNum 1)]) PICK_RANGE 0"
proof -
  have 1: "validateSelection (\<lambda>_. None) 10
      (obj [(''type'', JStr ''range''), (''min'', JNum 1)]) PICK_RANGE = Inr ()"
    by (simp add: validateSelection_def obj_def js_lt_def js_gt_def)
  have 2: "toNumber (\<lambda>_. None) (obj [(''type'', JStr ''range''), (''min'', JNum 1)] ''max'') = None"
    by (simp add: obj_def)
  have 3: "calculateOdds (\<lambda>_. None)
       (obj [(''type'', JStr ''range''), (''min'', JNum 1)]) PICK_RANGE 0
       = fromProbability (edgeFactor 0) None 100"
    by (simp add: obj_def)
  have 4: "fromProbability (edgeFactor 0) None 100 = 0"
    by (simp add: fromProbability_def)
  show ?thesis unfolding 3 4 using 1 2 by simp
qed

text \<open>
  C9. With a market type outside the ten known ones \<open>calculateOdds\<close> returns the
  two-equal-bins multiplier \<open>max 1 (floor (2 * edgeFactor * 100) / 100)\<close>, for every
  selection and house edge, while \<open>encodeSelection\<close> and \<open>validateSelection\<close> both
  raise a ValidationError.
\<close>

theorem calculateOdds_unknown_market:
  "calculateOdds S s (UNKNOWN_MARKET m) e = max 1 (of_int \<lfloor>2 * edgeFactor e * 100\<rfloor> / 100)
   \<and> encodeSelection s (UNKNOWN_MARKET m) = Inl (ValidationError ''Invalid market type'')
   \<and> (\<exists>msg. validateSelection S mx s (UNKNOWN_MARKET m) = Inl (ValidationError msg))"
  by (simp add: fromEqualBins_def validateSelection_def)

section \<open>Claims about the win decision\<close>

text \<open>
  C10. For a Shape outcome, \<open>checkBetWon\<close> holds exactly when the selection has type
  \<open>shape\<close>, its shape is the outcome's shape, and its color is falsy or is the
  outcome's color. An absent color and the color 0 are falsy, so color 0 is no
  constraint. The size of the selection is not read: changing it changes nothing.
\<close>

theorem checkBetWon_shape:
  "checkBetWon S s (Shape shape color) mt =
     (s ''type'' = JStr ''shape'' \<and> s ''shape'' = JNum shape
      \<and> (falsy (s ''color'') \<or> s ''color'' = JNum color))
   \<and> falsy JUndef \<and> falsy (JNum 0)
   \<and> checkBetWon S (s(''size'' := v)) (Shape shape color) mt
       = checkBetWon S s (Shape shape color) mt"
  by simp

section \<open>Properties of the selection codec\<close>

text \<open>
  \<open>encodeSelection\<close> returns a record for every selection that passes
  \<open>validateSelection\<close>, and a valid selection that \<open>decodeSelection\<close> builds from a
  record of numbers is restored by decoding its encoding.
\<close>

lemma decode_encode_roundtrip:
  "(validateSelection S mx s mt = Inr () \<longrightarrow> (\<exists>enc. encodeSelection s mt = Inr enc))
   \<and> (validateSelection S mx s mt = Inr ()
       \<and> s = decodeSelection \<lparr>kind = k, a = JNum x, b = JNum y, c = JNum z\<rparr> mt
       \<longrightarrow> (\<exists>enc. encodeSelection s mt = Inr enc \<and> decodeSelection enc mt = s))"
proof -
  have t: "validateSelection S mx s mt = Inr () \<longrightarrow> (\<exists>enc. encodeSelection s mt = Inr enc)"
    by (cases mt) (auto simp: validateSelection_def)
  have r: "validateSelection S mx s mt = Inr ()
       \<and> s = decodeSelection \<lparr>kind = k, a = JNum x, b = JNum y, c = JNum z\<rparr> mt
       \<longrightarrow> (\<exists>enc. encodeSelection s mt = Inr enc \<and> decodeSelection enc mt = s)"
    by (cases mt) (auto simp: validateSelection_def obj_def js_or_def sourceNames_def sourceMap_def)
  from t r show ?thesis by blast
qed

lemma decode_encode_roundtrip_range:
  "validateSelection (\<lambda>_. None) 10
      (obj [(''type'', JStr ''range''), (''min'', JNum 1), (''max'', JNum 50)]) PICK_RANGE = Inr ()
   \<and> obj [(''type'', JStr ''range''), (''min'', JNum 1), (''max'', JNum 50)]
       = decodeSelection \<lparr>kind = 0, a = JNum 1, b = JNum 50, c = JNum 0\<rparr> PICK_RANGE
   \<and> (\<exists>enc. encodeSelection
          (obj [(''type'', JStr ''range''), (''min'', JNum 1), (''max'', JNum 50)]) PICK_RANGE
            = Inr enc
        \<and> decodeSelection enc PICK_RANGE
            = obj [(''type'', JStr ''range''), (''min'', JNum 1), (''max'', JNum 50)])"
proof -
  have v: "validateSelection (\<lambda>_. None) 10
      (obj [(''type'', JStr ''range''), (''min'', JNum 1), (''max'', JNum 50)]) PICK_RANGE = Inr ()"
    by (simp add: validateSelection_def obj_def js_lt_def js_gt_def)
  have d: "obj [(''type'', JStr ''range''), (''min'', JNum 1), (''max'', JNum 50)]
       = decodeSelection \<lparr>kind = 0, a = JNum 1, b = JNum 50, c = JNum 0\<rparr> PICK_RANGE"
    by simp
  from v d decode_encode_roundtrip
    [of "\<lambda>_. None" 10 "obj [(''type'', JStr ''range''), (''min'', JNum 1), (''max'', JNum 50)]"
        PICK_RANGE 0 1 50 0]
  show ?thesis by blast
qed

section \<open>Claims about the selection codec\<close>

text \<open>
  C2. The shape selection \<^verbatim>\<open>{ type: 'shape', shape: 1 }\<close>, with no color and no
  size, passes \<open>validateSelection\<close>. \<open>encodeSelection\<close> writes 255 for each
  absent field and \<open>decodeSelection\<close> returns color 255 and size 255, not absent
  fields: the round trip does not restore the selection. \<open>calculateOdds\<close> and
  \<open>checkBetWon\<close> read an absent field as the wildcard, so the selection pays 4 and
  wins against a matching shape of any color, while the decoded one pays 72 and loses;
  \<open>confirmBet\<close> stores the bet with the decoded selection and the odds 72.
\<close>

theorem encodeSelection_wildcard_not_restored:
  "validateSelection (\<lambda>_. None) 10
      (obj [(''type'', JStr ''shape''), (''shape'', JNum 1)]) SHAPE_COLOR = Inr ()
   \<and> encodeSelection (obj [(''type'', JStr ''shape''), (''shape'', JNum 1)]) SHAPE_COLOR
       = Inr \<lparr>kind = 6, a = JNum 1, b = JNum 255, c = JNum 255\<rparr>
   \<and> decodeSelection \<lparr>kind = 6, a = JNum 1, b = JNum 255, c = JNum 255\<rparr> SHAPE_COLOR
       = obj [(''type'', JStr ''shape''), (''shape'', JNum 1), (''color'', JNum 255),
              (''size'', JNum 255)]
   \<and> obj [(''type'', JStr ''shape''), (''shape'', JNum 1)] ''color'' = JUndef
   \<and> obj [(''type'', JStr ''shape''), (''shape'', JNum 1)] ''size'' = JUndef
   \<and> decodeSelection \<lparr>kind = 6, a = JNum 1, b = JNum 255, c = JNum 255\<rparr> SHAPE_COLOR
       \<noteq> obj [(''type'', JStr ''shape''), (''shape'', JNum 1)]
   \<and> calculateOdds (\<lambda>_. None) (obj [(''type'', JStr ''shape''), (''shape'', JNum 1)])
       SHAPE_COLOR 0 = 4
   \<and> calculateOdds (\<lambda>_. None)
       (decodeSelection \<lparr>kind = 6, a = JNum 1, b = JNum 255, c = JNum 255\<rparr> SHAPE_COLOR)
       SHAPE_COLOR 0 = 72
   \<and> checkBetWon (\<lambda>_. None) (obj [(''type'', JStr ''shape''), (''shape'', JNum 1)])
       (Shape 1 3) SHAPE_COLOR
   \<and> \<not> checkBetWon (\<lambda>_. None)
       (decodeSelection \<lparr>kind = 6, a = JNum 1, b = JNum 255, c = JNum 255\<rparr> SHAPE_COLOR)
       (Shape 1 3) SHAPE_COLOR
   \<and> map (\<lambda>x. (odds x, selection x ''color'', selection x ''size''))
       (bets (snd (confirmBet (\<lambda>n s. s) (\<lambda>_. None)
          (\<lambda>_. Some (Some \<lparr>dec_stake = Some 10, dec_selection =
                Some \<lparr>kind = 6, a = JNum 1, b = JNum 255, c = JNum 255\<rparr>\<rparr>))
          ''user'' ''r1'' (obj [(''type'', JStr ''shape''), (''shape'', JNum 1)]) 10 ''sig''
          (state0 (round1\<lparr>market_type := SHAPE_COLOR\<rparr>) []))))
       = [(72, JNum 255, JNum 255)]"
proof -
  have 1: "validateSelection (\<lambda>_. None) 10
      (obj [(''type'', JStr ''shape''), (''shape'', JNum 1)]) SHAPE_COLOR = Inr ()"
    by (simp add: validateSelection_def obj_def isInteger_def)
  have 2: "encodeSelection (obj [(''type'', JStr ''shape''), (''shape'', JNum 1)]) SHAPE_COLOR
       = Inr \<lparr>kind = 6, a = JNum 1, b = JNum 255, c = JNum 255\<rparr>"
    by (simp add: obj_def)
  have 3: "decodeSelection \<lparr>kind = 6, a = JNum 1, b = JNum 255, c = JNum 255\<rparr> SHAPE_COLOR
       = obj [(''type'', JStr ''shape''), (''shape'', JNum 1), (''color'', JNum 255),
              (''size'', JNum 255)]"
    by simp
  have 4: "obj [(''type'', JStr ''shape''), (''shape'', JNum 1)] ''color'' = JUndef"
    "obj [(''type'', JStr ''shape''), (''shape'', JNum 1)] ''size'' = JUndef"
    by (simp_all add: obj_def)
  have c: "obj [(''type'', JStr ''shape''), (''shape'', JNum 1), (''color'', JNum 255),
              (''size'', JNum 255)] ''color'' = JNum 255"
    by (simp add: obj_def)
  from c 4(1) have 5: "obj [(''type'', JStr ''shape''), (''shape'', JNum 1), (''color'', JNum 255),
              (''size'', JNum 255)] \<noteq> obj [(''type'', JStr ''shape''), (''shape'', JNum 1)]"
    by (metis jsval.distinct(1))
  have 6: "calculateOdds (\<lambda>_. None) (obj [(''type'', JStr ''shape''), (''shape'', JNum 1)])
       SHAPE_COLOR 0 = 4"
    by (simp add: obj_def fromProbability_def edgeFactor_def)
  have 7: "calculateOdds (\<lambda>_. None)
       (obj [(''type'', JStr ''shape''), (''shape'', JNum 1), (''color'', JNum 255),
              (''size'', JNum 255)]) SHAPE_COLOR 0 = 72"
    by (simp add: obj_def fromProbability_def edgeFactor_def)
  have 8: "checkBetWon (\<lambda>_. None) (obj [(''type'', JStr ''shape''), (''shape'', JNum 1)])
       (Shape 1 3) SHAPE_COLOR"
    by (simp add: obj_def)
  have 9: "\<not> checkBetWon (\<lambda>_. None)
       (obj [(''type'', JStr ''shape''), (''shape'', JNum 1), (''color'', JNum 255),
              (''size'', JNum 255)]) (Shape 1 3) SHAPE_COLOR"
    by (simp add: obj_def)
  have 10: "map (\<lambda>x. (odds x, selection x ''color'', selection x ''size''))
       (bets (snd (confirmBet (\<lambda>n s. s) (\<lambda>_. None)
          (\<lambda>_. Some (Some \<lparr>dec_stake = Some 10, dec_selection =
                Some \<lparr>kind = 6, a = JNum 1, b = JNum 255, c = JNum 255\<rparr>\<rparr>))
          ''user'' ''r1'' (obj [(''type'', JStr ''shape''), (''shape'', JNum 1)]) 10 ''sig''
          (state0 (round1\<lparr>market_type := SHAPE_COLOR\<rparr>) []))))
       = [(72, JNum 255, JNum 255)]"
    using 7
    by (simp add: confirmBet_def confirm_round_def processBetConfirmation_def
      redis_set_nx_def Round_findById_def poll_loop.simps Bet_create_def fresh_id_def
      redis_set_cache_def redis_hset_def redis_incr_def confirmed_def state0_def round0_def
      round1_def Let_def obj_def)
  show ?thesis unfolding 3 using 1 2 4 5 6 7 8 9 10 by blast
qed

section \<open>Properties of the storage operations and the loops\<close>

lemma log_call_simps [simp]:
  "bets (log_call cl st) = bets st" "rounds (log_call cl st) = rounds st"
  "calls (log_call cl st) = calls st @ [cl]"
  by (simp_all add: log_call_def)

lemma Round_updateOne_simps [simp]:
  "bets (Round_updateOne rid f st) = bets st"
  "calls (Round_updateOne rid f st) = calls st"
  "rounds (Round_updateOne rid f st) = (rounds st)(rid := map_option f (rounds st rid))"
  by (simp_all add: Round_updateOne_def)

lemma Bet_updateOne_simps [simp]:
  "bets (Bet_updateOne i f st) = update_first i f (bets st)"
  "calls (Bet_updateOne i f st) = calls st"
  "rounds (Bet_updateOne i f st) = rounds st"
  by (simp_all add: Bet_updateOne_def)

lemma Bet_find_pending_simps [simp]:
  "Bet_find_pending rid (log_call cl st) = Bet_find_pending rid st"
  "Bet_find_pending rid (Round_updateOne r f st) = Bet_find_pending rid st"
  by (simp_all add: Bet_find_pending_def)

lemma update_first_ids:
  "(\<And>y. bet_id (f y) = bet_id y) \<Longrightarrow> map bet_id (update_first i f xs) = map bet_id xs"
  by (induction xs) auto

lemma update_first_absent: "i \<notin> bet_id ` set xs \<Longrightarrow> update_first i f xs = xs"
  by (induction xs) auto

lemma update_first_map:
  "distinct (map bet_id xs) \<Longrightarrow> x \<in> set xs \<Longrightarrow> f x = g x \<Longrightarrow>
   update_first (bet_id x) f xs = map (\<lambda>y. if bet_id y = bet_id x then g y else y) xs"
proof (induction xs)
  case Nil
  then show ?case by simp
next
  case (Cons z zs)
  show ?case
  proof (cases "bet_id z = bet_id x")
    case True
    with Cons.prems have zx: "z = x"
      by (metis distinct.simps(2) image_eqI list.simps(9) set_ConsD set_map)
    have "bet_id z \<notin> bet_id ` set zs" using Cons.prems(1) by simp
    then have "\<forall>y\<in>set zs. bet_id y \<noteq> bet_id x" using True by (metis imageI)
    then have "map (\<lambda>y. if bet_id y = bet_id x then g y else y) zs = zs"
      by (intro map_idI) simp
    then show ?thesis using True zx Cons.prems(3) by simp
  next
    case False
    with Cons show ?thesis by auto
  qed
qed

lemma map_map_ids:
  assumes "i \<notin> D" "\<And>y. bet_id (g y) = bet_id y"
  shows "map (\<lambda>y. if bet_id y \<in> D then g y else y) (map (\<lambda>y. if bet_id y = i then g y else y) xs)
       = map (\<lambda>y. if bet_id y \<in> insert i D then g y else y) xs"
  using assms by (induction xs) auto

lemma settled_id [simp]: "bet_id (settled S gw oc r x) = bet_id x"
  by (simp add: settled_def split: sum.splits)

lemma refunded_id [simp]: "bet_id (refunded gw mint x) = bet_id x"
  by (simp add: refunded_def split: sum.splits)

lemma settle_loop_effect:
  "distinct (map bet_id (bets st)) \<Longrightarrow> set ps \<subseteq> set (bets st) \<Longrightarrow> distinct (map bet_id ps) \<Longrightarrow>
   \<exists>D. D \<subseteq> bet_id ` set ps
     \<and> bets (snd (settle_loop S gw oc r ps st))
         = map (\<lambda>y. if bet_id y \<in> D then settled S gw oc r y else y) (bets st)"
proof (induction ps arbitrary: st)
  case Nil
  show ?case by (rule exI[of _ "{}"]) simp
next
  case (Cons x rest)
  show ?case
  proof (cases "walletAddress x")
    case None
    then show ?thesis by (intro exI[of _ "{}"]) (simp add: Let_def)
  next
    case (Some w)
    show ?thesis
    proof (cases "settleBet gw (bet_id x)")
      case (Inl e)
      then show ?thesis using Some by (intro exI[of _ "{}"]) (simp add: Let_def)
    next
      case (Inr tx)
      define f where "f = (\<lambda>y::bet. y\<lparr>bet.status := (if checkBetWon S (selection x) oc (market_type r) then WON else LOST),
                            payout := Some (if checkBetWon S (selection x) oc (market_type r) then stake x * odds x else 0),
                            settleTxSignature := Some tx\<rparr>)"
      define st1 where "st1 = Bet_updateOne (bet_id x) f (log_call (SettleBet (bet_id x)) st)"
      have eq: "settle_loop S gw oc r (x # rest) st = settle_loop S gw oc r rest st1"
        using Some Inr by (simp add: Let_def st1_def f_def)
      have xin: "x \<in> set (bets st)" using Cons.prems by simp
      have fx: "f x = settled S gw oc r x" by (simp add: settled_def Inr f_def)
      have fid: "bet_id (f y) = bet_id y" for y by (simp add: f_def)
      have b1: "bets st1 = map (\<lambda>y. if bet_id y = bet_id x then settled S gw oc r y else y) (bets st)"
        using update_first_map[of "bets st" x f "settled S gw oc r", OF Cons.prems(1) xin fx]
        by (simp add: st1_def)
      have d1: "distinct (map bet_id (bets st1))"
        using Cons.prems(1) fid by (simp add: update_first_ids st1_def)
      have notin: "bet_id x \<notin> bet_id ` set rest" using Cons.prems(3) by auto
      have notin': "\<forall>y\<in>set rest. bet_id y \<noteq> bet_id x" using notin by (metis imageI)
      have sub1: "set rest \<subseteq> set (bets st1)"
      proof
        fix y assume y: "y \<in> set rest"
        then have "y \<in> set (bets st)" "bet_id y \<noteq> bet_id x" using Cons.prems(2) notin' by auto
        then have "y \<in> (\<lambda>y. if bet_id y = bet_id x then settled S gw oc r y else y) ` set (bets st)"
          by (intro image_eqI[of _ _ y]) simp_all
        then show "y \<in> set (bets st1)" unfolding b1 by simp
      qed
      have d2: "distinct (map bet_id rest)" using Cons.prems(3) by simp
      from Cons.IH[OF d1 sub1 d2] obtain D where D1: "D \<subseteq> bet_id ` set rest"
        and D2: "bets (snd (settle_loop S gw oc r rest st1))
           = map (\<lambda>y. if bet_id y \<in> D then settled S gw oc r y else y) (bets st1)"
        by (elim exE conjE)
      have xD: "bet_id x \<notin> D" using D1 notin by auto
      have "bets (snd (settle_loop S gw oc r (x # rest) st))
           = map (\<lambda>y. if bet_id y \<in> insert (bet_id x) D then settled S gw oc r y else y) (bets st)"
        unfolding eq D2 b1 by (rule map_map_ids[OF xD]) simp
      moreover have "insert (bet_id x) D \<subseteq> bet_id ` set (x # rest)" using D1 by auto
      ultimately show ?thesis by (intro exI[of _ "insert (bet_id x) D"] conjI)
    qed
  qed
qed

lemma settle_loop_rounds [simp]: "rounds (snd (settle_loop S gw oc r ps st)) = rounds st"
  by (induction ps arbitrary: st) (auto simp: Let_def split: option.splits sum.splits)

lemma refund_loop_rounds [simp]: "rounds (refund_loop gw mint ps st) = rounds st"
  by (induction ps arbitrary: st) (auto split: sum.splits)

lemma refund_loop_calls:
  "calls (refund_loop gw mint ps st)
     = calls st @ map (\<lambda>x. RefundBet (bet_id x))
                    (filter (\<lambda>x. truthy (walletAddress x) \<and> truthy mint) ps)"
  by (induction ps arbitrary: st) (auto split: sum.splits)

lemma unique_by_id:
  "distinct (map bet_id xs) \<Longrightarrow> x \<in> set xs \<Longrightarrow> y \<in> set xs \<Longrightarrow> bet_id y = bet_id x \<Longrightarrow> y = x"
  by (meson distinct_map inj_onD)

lemma refund_loop_effect:
  "distinct (map bet_id (bets st)) \<Longrightarrow> set ps \<subseteq> set (bets st) \<Longrightarrow> distinct (map bet_id ps) \<Longrightarrow>
   bets (refund_loop gw mint ps st)
     = map (\<lambda>y. if bet_id y \<in> bet_id ` set ps then refunded gw mint y else y) (bets st)"
proof (induction ps arbitrary: st)
  case Nil
  show ?case by simp
next
  case (Cons x rest)
  have xin: "x \<in> set (bets st)" using Cons.prems by simp
  have notin: "bet_id x \<notin> bet_id ` set rest" using Cons.prems(3) by auto
  have notin': "\<forall>y\<in>set rest. bet_id y \<noteq> bet_id x" using notin by (metis imageI)
  have d2: "distinct (map bet_id rest)" using Cons.prems(3) by simp
  have sub: "set rest \<subseteq> set (bets st)" using Cons.prems(2) by simp
  have same: "map (\<lambda>y. if bet_id y \<in> bet_id ` set rest then refunded gw mint y else y) (bets st)
      = map (\<lambda>y. if bet_id y \<in> bet_id ` set (x # rest) then refunded gw mint y else y) (bets st)"
    if rx: "refunded gw mint x = x"
  proof (rule map_cong[OF refl])
    fix y assume y: "y \<in> set (bets st)"
    show "(if bet_id y \<in> bet_id ` set rest then refunded gw mint y else y)
        = (if bet_id y \<in> bet_id ` set (x # rest) then refunded gw mint y else y)"
    proof (cases "bet_id y = bet_id x")
      case True
      then have "y = x" using unique_by_id[OF Cons.prems(1) xin y] by simp
      then show ?thesis using rx notin by simp
    next
      case False
      then show ?thesis by simp
    qed
  qed
  show ?case
  proof (cases "\<not> truthy (walletAddress x) \<or> \<not> truthy mint")
    case True
    then have rx: "refunded gw mint x = x" by (auto simp: refunded_def)
    have "bets (refund_loop gw mint (x # rest) st) = bets (refund_loop gw mint rest st)"
      using True by auto
    also have "\<dots> = map (\<lambda>y. if bet_id y \<in> bet_id ` set rest then refunded gw mint y else y) (bets st)"
      by (rule Cons.IH[OF Cons.prems(1) sub d2])
    finally show ?thesis using same[OF rx] by simp
  next
    case False
    show ?thesis
    proof (cases "refundBet gw (bet_id x)")
      case (Inl e)
      then have rx: "refunded gw mint x = x" by (auto simp: refunded_def)
      define st1 where "st1 = log_call (RefundBet (bet_id x)) st"
      have b1: "bets st1 = bets st" by (simp add: st1_def)
      have "bets (refund_loop gw mint (x # rest) st) = bets (refund_loop gw mint rest st1)"
        using False Inl by (simp add: st1_def)
      also have "\<dots> = map (\<lambda>y. if bet_id y \<in> bet_id ` set rest then refunded gw mint y else y) (bets st1)"
        by (rule Cons.IH) (simp_all add: b1 Cons.prems(1) sub d2)
      finally show ?thesis using same[OF rx] b1 by simp
    next
      case (Inr tx)
      define f where "f = (\<lambda>y::bet. y\<lparr>bet.status := REFUNDED, payout := Some (stake x),
                              refundTxSignature := Some tx\<rparr>)"
      define st1 where "st1 = Bet_updateOne (bet_id x) f (log_call (RefundBet (bet_id x)) st)"
      have eq: "refund_loop gw mint (x # rest) st = refund_loop gw mint rest st1"
        using False Inr by (simp add: st1_def f_def)
      have fx: "f x = refunded gw mint x" using False Inr by (simp add: refunded_def f_def)
      have fid: "bet_id (f y) = bet_id y" for y by (simp add: f_def)
      have b1: "bets st1 = map (\<lambda>y. if bet_id y = bet_id x then refunded gw mint y else y) (bets st)"
        using update_first_map[of "bets st" x f "refunded gw mint", OF Cons.prems(1) xin fx]
        by (simp add: st1_def)
      have d1: "distinct (map bet_id (bets st1))"
        using Cons.prems(1) fid by (simp add: update_first_ids st1_def)
      have sub1: "set rest \<subseteq> set (bets st1)"
      proof
        fix y assume y: "y \<in> set rest"
        then have "y \<in> set (bets st)" "bet_id y \<noteq> bet_id x" using Cons.prems(2) notin' by auto
        then have "y \<in> (\<lambda>y. if bet_id y = bet_id x then refunded gw mint y else y) ` set (bets st)"
          by (intro image_eqI[of _ _ y]) simp_all
        then show "y \<in> set (bets st1)" unfolding b1 by simp
      qed
      have "bets (refund_loop gw mint rest st1)
          = map (\<lambda>y. if bet_id y \<in> bet_id ` set rest then refunded gw mint y else y) (bets st1)"
        by (rule Cons.IH[OF d1 sub1 d2])
      also have "\<dots> = map (\<lambda>y. if bet_id y \<in> insert (bet_id x) (bet_id ` set rest)
                                then refunded gw mint y else y) (bets st)"
        unfolding b1 by (rule map_map_ids[OF notin]) simp
      finally show ?thesis unfolding eq by simp
    qed
  qed
qed

lemma pending_ids:
  "distinct (map bet_id xs) \<Longrightarrow> y \<in> set xs \<Longrightarrow>
   (bet_id y \<in> bet_id ` set (filter P xs)) = P y"
proof
  assume d: "distinct (map bet_id xs)" and y: "y \<in> set xs"
    and "bet_id y \<in> bet_id ` set (filter P xs)"
  then obtain z where z: "z \<in> set xs" "P z" "bet_id y = bet_id z" by auto
  then have "y = z" using unique_by_id[OF d z(1) y] by simp
  then show "P y" using z by simp
next
  assume "y \<in> set xs" "P y"
  then show "bet_id y \<in> bet_id ` set (filter P xs)" by auto
qed

lemma settle_loop_ids [simp]: "map bet_id (bets (snd (settle_loop S gw oc r ps st))) = map bet_id (bets st)"
  by (induction ps arbitrary: st)
     (auto simp: Let_def update_first_ids split: option.splits sum.splits)

lemma refund_loop_ids [simp]: "map bet_id (bets (refund_loop gw mint ps st)) = map bet_id (bets st)"
  by (induction ps arbitrary: st) (auto simp: update_first_ids split: sum.splits)

lemma undelegate_before_bets [simp]: "bets (snd (undelegate_before gw rid r st)) = bets st"
  by (auto simp: undelegate_before_def Let_def split: sum.splits prod.splits)

lemma undelegate_retry_bets [simp]: "bets (undelegate_retry gw rid n st) = bets st"
  by (induction gw rid n st rule: undelegate_retry.induct)
     (subst undelegate_retry.simps, auto split: sum.splits prod.splits)

lemma finish_round_bets [simp]: "bets (finish_round gw rid st) = bets st"
  by (simp add: finish_round_def Let_def)

lemma settle_try_ids [simp]:
  "map bet_id (bets (snd (settle_try S gw rid st))) = map bet_id (bets st)"
  by (auto simp: settle_try_def Let_def Round_findById_def split: option.splits prod.splits)
     (metis settle_loop_ids snd_conv undelegate_before_bets log_call_simps(1))+

lemma pending_subset: "set (Bet_find_pending rid st) \<subseteq> set (bets st)"
  by (auto simp: Bet_find_pending_def)

lemma pending_distinct: "distinct (map bet_id (bets st)) \<Longrightarrow> distinct (map bet_id (Bet_find_pending rid st))"
  by (simp add: Bet_find_pending_def distinct_map_filter)

lemma settle_try_bets:
  assumes d: "distinct (map bet_id (bets st))"
    and r: "rounds st rid = Some r" and oc: "outcome r = Some oc"
  shows "\<exists>D. D \<subseteq> bet_id ` set (Bet_find_pending rid st)
           \<and> bets (snd (settle_try S gw rid st))
               = map (\<lambda>y. if bet_id y \<in> D then settled S gw oc r y else y) (bets st)"
proof -
  have idle: "\<exists>D. D \<subseteq> bet_id ` set (Bet_find_pending rid st)
           \<and> bets st = map (\<lambda>y. if bet_id y \<in> D then settled S gw oc r y else y) (bets st)"
    by (rule exI[of _ "{}"]) simp
  obtain u st1 where ub: "undelegate_before gw rid r st = (u, st1)" by (cases "undelegate_before gw rid r st")
  then have b1: "bets st1 = bets st" using undelegate_before_bets[of gw rid r st] by simp
  define st2 where "st2 = log_call WaitForRoundOutcomeOnBase st1"
  have b2: "bets st2 = bets st" by (simp add: st2_def b1)
  have "set (Bet_find_pending rid st) \<subseteq> set (bets st2)" using pending_subset b2 by simp
  from settle_loop_effect[OF _ this pending_distinct[OF d], of S gw oc r] d b2
  obtain D where D: "D \<subseteq> bet_id ` set (Bet_find_pending rid st)"
    "bets (snd (settle_loop S gw oc r (Bet_find_pending rid st) st2))
       = map (\<lambda>y. if bet_id y \<in> D then settled S gw oc r y else y) (bets st)"
    by auto
  show ?thesis
  proof (cases "\<not> truthy (market_mintAddress r) \<or> u \<noteq> None \<or> waitForRoundOutcomeOnBase gw \<noteq> None")
    case True
    then have "bets (snd (settle_try S gw rid st)) = bets st"
      using r oc ub b1
      by (auto simp: settle_try_def Let_def Round_findById_def split: option.splits prod.splits)
    then show ?thesis using idle by simp
  next
    case False
    then have "bets (snd (settle_try S gw rid st))
        = bets (snd (settle_loop S gw oc r (Bet_find_pending rid st) st2))"
      using r oc ub
      by (auto simp: settle_try_def Let_def Round_findById_def st2_def split: option.splits prod.splits)
    then show ?thesis using D by auto
  qed
qed

lemma settle_try_no_outcome:
  "rounds st rid = None \<or> (\<exists>r. rounds st rid = Some r \<and> outcome r = None) \<Longrightarrow>
   snd (settle_try S gw rid st) = st"
  by (auto simp: settle_try_def Let_def Round_findById_def)

lemma undelegate_before_rounds:
  "rounds (snd (undelegate_before gw rid r st)) = rounds st
   \<or> (\<exists>er base. isDelegated r \<and> commitAndUndelegateRoundER gw 0 = Inr (er, base)
        \<and> rounds (snd (undelegate_before gw rid r st))
            = (rounds st)(rid := map_option (\<lambda>x. x\<lparr>undelegateTxHash := Some er,
                                baseLayerUndelegateTxHash := Some base\<rparr>) (rounds st rid)))"
  by (auto simp: undelegate_before_def Let_def split: sum.splits prod.splits)

lemma settle_try_rounds_fail:
  assumes "fst (settle_try S gw rid st) = Some m"
  shows "rounds (snd (settle_try S gw rid st)) = rounds st
   \<or> (\<exists>r er base. rounds st rid = Some r \<and> isDelegated r
        \<and> commitAndUndelegateRoundER gw 0 = Inr (er, base)
        \<and> rounds (snd (settle_try S gw rid st))
            = (rounds st)(rid \<mapsto> r\<lparr>undelegateTxHash := Some er,
                                baseLayerUndelegateTxHash := Some base\<rparr>))"
proof (cases "rounds st rid")
  case None
  then show ?thesis by (simp add: settle_try_no_outcome)
next
  case (Some r)
  obtain u st1 where ub: "undelegate_before gw rid r st = (u, st1)" by (cases "undelegate_before gw rid r st")
  have "rounds (snd (settle_try S gw rid st)) = rounds st
        \<or> rounds (snd (settle_try S gw rid st)) = rounds st1"
    using assms Some ub
    by (auto simp: settle_try_def Let_def Round_findById_def split: option.splits prod.splits if_splits)
       (metis settle_loop_rounds snd_conv log_call_simps(2))
  then show ?thesis using undelegate_before_rounds[of gw rid r st] ub Some by auto
qed

lemma settle_try_scenario_e:
  assumes "\<forall>r. rounds st rid = Some r \<longrightarrow> \<not> isDelegated r"
    and "waitForRoundOutcomeOnBase gw \<noteq> None"
  shows "bets (snd (settle_try S gw rid st)) = bets st \<and> rounds (snd (settle_try S gw rid st)) = rounds st"
  using assms
  by (auto simp: settle_try_def Let_def Round_findById_def undelegate_before_def split: option.splits prod.splits)

lemma refund_fallback_thrown:
  "refund_fallback gw rid st = (Thrown e, st') \<Longrightarrow> bets st' = bets st \<and> rounds st' = rounds st"
  by (auto simp: refund_fallback_def Let_def Round_findById_def split: option.splits if_splits)

lemma job_thrown:
  assumes "processBetSettlementJob S gw rid st = (Thrown e, st')"
  shows "fst (settle_try S gw rid st) \<noteq> None \<and> bets st' = bets (snd (settle_try S gw rid st))
         \<and> rounds st' = rounds (snd (settle_try S gw rid st))"
  using assms refund_fallback_thrown
  by (auto simp: processBetSettlementJob_def split: prod.splits option.splits if_splits)

lemma refundBets_loop_snd:
  "snd (refundBets_loop gw (x # rest) st)
     = snd (refundBets_loop gw rest
         (if truthy (walletAddress x) then
            (case refundBet gw (bet_id x) of
               Inr refundTx \<Rightarrow>
                 Bet_updateOne (bet_id x) (\<lambda>y. y\<lparr>bet.status := REFUNDED, payout := Some (stake x)\<rparr>)
                   (log_call (RefundBet (bet_id x)) st)
             | Inl e \<Rightarrow> log_call (RefundBet (bet_id x)) st)
          else st))"
  by (simp split: prod.splits sum.splits)

lemma pending_ids':
  "distinct (map bet_id (bets st)) \<Longrightarrow> y \<in> set (bets st) \<Longrightarrow>
   (bet_id y \<in> bet_id ` set (Bet_find_pending rid st))
     = (roundId y = rid \<and> bet.status y = PENDING)"
  unfolding Bet_find_pending_def by (rule pending_ids)


text \<open>
  The refund fallback with at least one bet pending. When the settlement attempt fails
  with a fatal on-chain error (not retryable, and matched by \<open>isOnchainTxError\<close>), the
  round exists with a mint, at least one bet of the round is still PENDING, and the
  round is confirmed undelegated, then the run returns normally and: the round is marked
  FAILED; every bet that was PENDING on the round and has a wallet is refunded on-chain,
  after the call that confirms the undelegation; a bet whose refund succeeds is REFUNDED
  with payout equal to its stake; a bet whose refund throws, or that has no wallet,
  stays as it was; no other bet changes.
\<close>

lemma refund_fallback_after_fatal_error:
  assumes d: "distinct (map bet_id (bets st))"
    and t: "settle_try S gw rid st = (Some msg, st1)"
    and fatal: "\<not> isRetryableSettlementError msg" "isOnchainTxError msg"
    and r: "rounds st1 rid = Some r" and mint: "truthy (market_mintAddress r)"
    and pend: "Bet_find_pending rid st1 \<noteq> []"
    and und: "ensureRoundUndelegated gw 1 = None"
  shows "fst (processBetSettlementJob S gw rid st) = Done
     \<and> rounds (snd (processBetSettlementJob S gw rid st))
         = (rounds st1)(rid \<mapsto> r\<lparr>round.status := FAILED\<rparr>)
     \<and> bets (snd (processBetSettlementJob S gw rid st))
         = map (\<lambda>x. if roundId x = rid \<and> bet.status x = PENDING
                      then refunded gw (market_mintAddress r) x else x) (bets st1)
     \<and> (\<forall>x\<in>set (bets st1). roundId x = rid \<and> bet.status x = PENDING \<longrightarrow>
           (\<forall>tx. truthy (walletAddress x) \<and> refundBet gw (bet_id x) = Inr tx \<longrightarrow>
              x\<lparr>bet.status := REFUNDED, payout := Some (stake x), refundTxSignature := Some tx\<rparr>
                \<in> set (bets (snd (processBetSettlementJob S gw rid st))))
           \<and> (\<not> truthy (walletAddress x) \<or> (\<exists>e. refundBet gw (bet_id x) = Inl e) \<longrightarrow>
              x \<in> set (bets (snd (processBetSettlementJob S gw rid st)))))
     \<and> calls (snd (processBetSettlementJob S gw rid st))
         = calls st1 @ EnsureRoundUndelegated
             # map (\<lambda>x. RefundBet (bet_id x))
                 (filter (\<lambda>x. truthy (walletAddress x)) (Bet_find_pending rid st1))"
proof -
  let ?J = "processBetSettlementJob S gw rid st"
  have d1: "distinct (map bet_id (bets st1))"
    using d settle_try_ids[of S gw rid st] t by simp
  define st2 where "st2 = log_call EnsureRoundUndelegated st1"
  define st3 where "st3 = refund_loop gw (market_mintAddress r) (Bet_find_pending rid st1) st2"
  define F where "F = (\<lambda>x. if roundId x = rid \<and> bet.status x = PENDING
                      then refunded gw (market_mintAddress r) x else x)"
  have rf: "refund_fallback gw rid st1
      = (Done, Round_updateOne rid (\<lambda>x. x\<lparr>round.status := FAILED\<rparr>) st3)"
    using r pend und
    by (simp add: refund_fallback_def Round_findById_def Let_def st2_def st3_def)
  have job: "?J = (Done, Round_updateOne rid (\<lambda>x. x\<lparr>round.status := FAILED\<rparr>) st3)"
    using t fatal rf by (simp add: processBetSettlementJob_def)
  have b3: "bets st3 = map (\<lambda>y. if bet_id y \<in> bet_id ` set (Bet_find_pending rid st1)
                                  then refunded gw (market_mintAddress r) y else y) (bets st1)"
    unfolding st3_def
    using refund_loop_effect[of st2 "Bet_find_pending rid st1" gw "market_mintAddress r"]
      d1 pending_subset[of rid st1] pending_distinct[OF d1, of rid]
    by (simp add: st2_def)
  have b3': "bets st3 = map F (bets st1)"
    unfolding b3 F_def
    by (rule map_cong[OF refl]) (simp only: pending_ids'[OF d1])
  have f1: "fst ?J = Done" by (simp add: job)
  have f2: "rounds (snd ?J) = (rounds st1)(rid \<mapsto> r\<lparr>round.status := FAILED\<rparr>)"
    using r by (simp add: job st3_def st2_def)
  have f3: "bets (snd ?J) = map F (bets st1)"
    using b3' by (simp add: job)
  have f5: "calls (snd ?J) = calls st1 @ EnsureRoundUndelegated
             # map (\<lambda>x. RefundBet (bet_id x))
                 (filter (\<lambda>x. truthy (walletAddress x)) (Bet_find_pending rid st1))"
    using mint by (simp add: job st3_def refund_loop_calls st2_def)
  have f4: "\<forall>x\<in>set (bets st1). roundId x = rid \<and> bet.status x = PENDING \<longrightarrow>
           (\<forall>tx. truthy (walletAddress x) \<and> refundBet gw (bet_id x) = Inr tx \<longrightarrow>
              x\<lparr>bet.status := REFUNDED, payout := Some (stake x), refundTxSignature := Some tx\<rparr>
                \<in> set (bets (snd ?J)))
           \<and> (\<not> truthy (walletAddress x) \<or> (\<exists>e. refundBet gw (bet_id x) = Inl e) \<longrightarrow>
              x \<in> set (bets (snd ?J)))"
  proof (intro ballI impI conjI allI)
    fix x tx assume x: "x \<in> set (bets st1)" "roundId x = rid \<and> bet.status x = PENDING"
      and ok: "truthy (walletAddress x) \<and> refundBet gw (bet_id x) = Inr tx"
    have "F x = x\<lparr>bet.status := REFUNDED, payout := Some (stake x), refundTxSignature := Some tx\<rparr>"
      using ok mint x(2) by (simp add: refunded_def F_def)
    moreover have "F x \<in> set (bets (snd ?J))"
      unfolding f3 using x(1) by simp
    ultimately show "x\<lparr>bet.status := REFUNDED, payout := Some (stake x), refundTxSignature := Some tx\<rparr>
                \<in> set (bets (snd ?J))"
      by simp
  next
    fix x assume x: "x \<in> set (bets st1)" "roundId x = rid \<and> bet.status x = PENDING"
      and no: "\<not> truthy (walletAddress x) \<or> (\<exists>e. refundBet gw (bet_id x) = Inl e)"
    have "F x = x"
      using no by (auto simp: refunded_def F_def)
    moreover have "F x \<in> set (bets (snd ?J))"
      unfolding f3 using x(1) by simp
    ultimately show "x \<in> set (bets (snd ?J))"
      by simp
  qed
  show ?thesis
    using f3 unfolding F_def by (intro conjI f1 f2 f4 f5)
qed

lemma refund_fallback_three_bets:
  "fst (processBetSettlementJob (\<lambda>_. None)
          (gateway0\<lparr>settleBet := (\<lambda>i. if i = 1 then Inl ''Transaction simulation failed''
                                        else Inr ''settletx''),
                    refundBet := (\<lambda>i. if i = 3 then Inl ''refund failed'' else Inr ''refundtx'')\<rparr>)
          ''r1'' (state0 (round0\<lparr>delegateTxHash := None\<rparr>) [bet0 1 1 50, bet0 2 1 50, bet0 3 1 50]))
     = Done
   \<and> map (\<lambda>x. (bet.status x, payout x))
       (bets (snd (processBetSettlementJob (\<lambda>_. None)
          (gateway0\<lparr>settleBet := (\<lambda>i. if i = 1 then Inl ''Transaction simulation failed''
                                        else Inr ''settletx''),
                    refundBet := (\<lambda>i. if i = 3 then Inl ''refund failed'' else Inr ''refundtx'')\<rparr>)
          ''r1'' (state0 (round0\<lparr>delegateTxHash := None\<rparr>) [bet0 1 1 50, bet0 2 1 50, bet0 3 1 50]))))
     = [(REFUNDED, Some 10), (REFUNDED, Some 10), (PENDING, None)]
   \<and> map_option round.status
       (rounds (snd (processBetSettlementJob (\<lambda>_. None)
          (gateway0\<lparr>settleBet := (\<lambda>i. if i = 1 then Inl ''Transaction simulation failed''
                                        else Inr ''settletx''),
                    refundBet := (\<lambda>i. if i = 3 then Inl ''refund failed'' else Inr ''refundtx'')\<rparr>)
          ''r1'' (state0 (round0\<lparr>delegateTxHash := None\<rparr>) [bet0 1 1 50, bet0 2 1 50, bet0 3 1 50])))
        ''r1'')
     = Some FAILED"
proof -
  define gw where "gw = gateway0\<lparr>settleBet := (\<lambda>i. if i = 1 then Inl ''Transaction simulation failed''
                                        else Inr ''settletx''),
                    refundBet := (\<lambda>i. if i = 3 then Inl ''refund failed'' else Inr ''refundtx'')\<rparr>"
  define st where "st = state0 (round0\<lparr>delegateTxHash := None\<rparr>) [bet0 1 1 50, bet0 2 1 50, bet0 3 1 50]"
  define st1 where "st1 = st\<lparr>calls := [WaitForRoundOutcomeOnBase, SettleBet 1]\<rparr>"
  have d: "distinct (map bet_id (bets st))"
    by (simp add: st_def state0_def bet0_def)
  have t: "settle_try (\<lambda>_. None) gw ''r1'' st = (Some ''Transaction simulation failed'', st1)"
    by (simp add: settle_try_def Round_findById_def Bet_find_pending_def undelegate_before_def
        isDelegated_def truthy_def log_call_def st_def st1_def state0_def round0_def gw_def
        gateway0_def bet0_def)
  have f1: "\<not> isRetryableSettlementError ''Transaction simulation failed''" by code_simp
  have f2: "isOnchainTxError ''Transaction simulation failed''" by code_simp
  have r: "rounds st1 ''r1'' = Some (round0\<lparr>delegateTxHash := None\<rparr>)"
    by (simp add: st1_def st_def state0_def)
  have mint: "truthy (market_mintAddress (round0\<lparr>delegateTxHash := None\<rparr>))"
    by (simp add: truthy_def round0_def)
  have pend: "Bet_find_pending ''r1'' st1 \<noteq> []"
    by (simp add: Bet_find_pending_def st1_def st_def state0_def bet0_def)
  have und: "ensureRoundUndelegated gw 1 = None"
    by (simp add: gw_def gateway0_def)
  from refund_fallback_after_fatal_error[OF d t f1 f2 r mint pend und]
  show ?thesis
    unfolding gw_def[symmetric] st_def[symmetric]
    by (simp add: st1_def st_def state0_def bet0_def refunded_def truthy_def round0_def gw_def gateway0_def)
qed

section \<open>Claims about the settlement engine\<close>

text \<open>
  C3. A settlement run on a round that is not delegated and has no PENDING bet, whose
  wait for the outcome throws a fatal on-chain error (matched by \<open>isOnchainTxError\<close>,
  not retryable): the run returns normally and the round keeps the status LOCKED; it is
  not marked FAILED. \<open>refundBets\<close>, the refund pass of the admin endpoint, marks the
  round of the same state FAILED. And a round that the fallback has marked FAILED, with
  a bet left PENDING by a refund that failed, is settled by the next run: the bet
  becomes WON and the round SETTLED.
\<close>

theorem fatal_error_round_not_failed:
  "isOnchainTxError ''Transaction simulation failed''
   \<and> \<not> isRetryableSettlementError ''Transaction simulation failed''
   \<and> \<not> isDelegated round1
   \<and> Bet_find_pending ''r1'' (state0 round1 []) = []
   \<and> processBetSettlementJob (\<lambda>_. None)
        (gateway0\<lparr>waitForRoundOutcomeOnBase := Some ''Transaction simulation failed''\<rparr>)
        ''r1'' (state0 round1 [])
       = (Done, (state0 round1 [])\<lparr>calls := [WaitForRoundOutcomeOnBase]\<rparr>)
   \<and> round.status round1 = LOCKED
   \<and> refundBets gateway0 ''r1'' (state0 round1 [])
       = (Inr [], state0 (round1\<lparr>round.status := FAILED\<rparr>) [])
   \<and> processBetSettlementJob (\<lambda>_. None)
        (gateway0\<lparr>settleBet := (\<lambda>_. Inl ''Transaction simulation failed''),
                  refundBet := (\<lambda>_. Inl ''refund failed'')\<rparr>)
        ''r1'' (state0 round1 [bet0 1 1 50])
       = (Done, (state0 (round1\<lparr>round.status := FAILED\<rparr>) [bet0 1 1 50])
                  \<lparr>calls := [WaitForRoundOutcomeOnBase, SettleBet 1, EnsureRoundUndelegated,
                             RefundBet 1]\<rparr>)
   \<and> fst (processBetSettlementJob (\<lambda>_. None) gateway0 ''r1''
            (state0 (round1\<lparr>round.status := FAILED\<rparr>) [bet0 1 1 50])) = Done
   \<and> map_option round.status
        (rounds (snd (processBetSettlementJob (\<lambda>_. None) gateway0 ''r1''
            (state0 (round1\<lparr>round.status := FAILED\<rparr>) [bet0 1 1 50]))) ''r1'')
       = Some SETTLED
   \<and> map (\<lambda>x. (bet_id x, bet.status x, payout x))
        (bets (snd (processBetSettlementJob (\<lambda>_. None) gateway0 ''r1''
            (state0 (round1\<lparr>round.status := FAILED\<rparr>) [bet0 1 1 50]))))
       = [(1, WON, Some 20)]"
proof -
  have e1: "isOnchainTxError ''Transaction simulation failed''" by code_simp
  have e2: "\<not> isRetryableSettlementError ''Transaction simulation failed''" by code_simp
  have 1: "processBetSettlementJob (\<lambda>_. None)
        (gateway0\<lparr>waitForRoundOutcomeOnBase := Some ''Transaction simulation failed''\<rparr>)
        ''r1'' (state0 round1 [])
       = (Done, (state0 round1 [])\<lparr>calls := [WaitForRoundOutcomeOnBase]\<rparr>)"
    using e1 e2
    by (simp add: processBetSettlementJob_def settle_try_def refund_fallback_def
        Round_findById_def Bet_find_pending_def undelegate_before_def isDelegated_def truthy_def
        log_call_def state0_def round0_def round1_def gateway0_def)
  have 2: "refundBets gateway0 ''r1'' (state0 round1 [])
       = (Inr [], state0 (round1\<lparr>round.status := FAILED\<rparr>) [])"
    by (simp add: refundBets_def Round_findById_def Bet_find_pending_def truthy_def
      state0_def round0_def round1_def gateway0_def Round_updateOne_def)
  have 3: "\<not> isDelegated round1" "round.status round1 = LOCKED"
    "Bet_find_pending ''r1'' (state0 round1 []) = []"
    by (simp_all add: isDelegated_def truthy_def round1_def round0_def Bet_find_pending_def state0_def)
  have 4: "processBetSettlementJob (\<lambda>_. None)
        (gateway0\<lparr>settleBet := (\<lambda>_. Inl ''Transaction simulation failed''),
                  refundBet := (\<lambda>_. Inl ''refund failed'')\<rparr>)
        ''r1'' (state0 round1 [bet0 1 1 50])
       = (Done, (state0 (round1\<lparr>round.status := FAILED\<rparr>) [bet0 1 1 50])
                  \<lparr>calls := [WaitForRoundOutcomeOnBase, SettleBet 1, EnsureRoundUndelegated,
                             RefundBet 1]\<rparr>)"
    using e1 e2
    by (simp add: processBetSettlementJob_def settle_try_def refund_fallback_def
        Round_findById_def Bet_find_pending_def undelegate_before_def isDelegated_def truthy_def
        log_call_def state0_def round0_def round1_def gateway0_def bet0_def Round_updateOne_def
        Let_def)
  have 5: "processBetSettlementJob (\<lambda>_. None) gateway0 ''r1''
            (state0 (round1\<lparr>round.status := FAILED\<rparr>) [bet0 1 1 50])
      = (Done, (state0 (round1\<lparr>round.status := SETTLED\<rparr>)
                 [(bet0 1 1 50)\<lparr>bet.status := WON, payout := Some 20,
                                 settleTxSignature := Some ''settletx''\<rparr>])
                  \<lparr>calls := [WaitForRoundOutcomeOnBase, SettleBet 1, SettleRound]\<rparr>)"
    by (simp add: processBetSettlementJob_def settle_try_def finish_round_def
        Round_findById_def Bet_find_pending_def undelegate_before_def isDelegated_def truthy_def
        log_call_def state0_def round0_def round1_def gateway0_def bet0_def Round_updateOne_def
        Bet_updateOne_def obj_def js_ge_def js_le_def Let_def)
  show ?thesis unfolding 1 2 4 5 using e1 e2 3
    by (simp add: state0_def bet0_def round1_def round0_def)
qed

text \<open>
  C4 (amended). When a run terminates by re-raising a retryable error, the error handler
  has written nothing: the Bet and Round records are as the failed settlement attempt
  left them. The round is unchanged, or was delegated and carries the two hashes of the
  successful commit-and-undelegate. Every bet is unchanged, or was PENDING on the round
  and has been settled before the error. When the round was not delegated and the wait
  for the outcome throws, every Bet record and the Round record are exactly as they were
  when the run started.
\<close>

theorem retryable_error_mutations:
  assumes d: "distinct (map bet_id (bets st))"
    and j: "processBetSettlementJob S gw rid st = (Thrown e, st')"
    and re: "isRetryableSettlementError e"
  shows "(\<exists>m. fst (settle_try S gw rid st) = Some m)
    \<and> bets st' = bets (snd (settle_try S gw rid st))
    \<and> rounds st' = rounds (snd (settle_try S gw rid st))
    \<and> (rounds st' = rounds st
        \<or> (\<exists>r er base. rounds st rid = Some r \<and> isDelegated r
              \<and> commitAndUndelegateRoundER gw 0 = Inr (er, base)
              \<and> rounds st' = (rounds st)(rid \<mapsto> r\<lparr>undelegateTxHash := Some er,
                                                  baseLayerUndelegateTxHash := Some base\<rparr>)))
    \<and> (\<forall>r oc. rounds st rid = Some r \<and> outcome r = Some oc \<longrightarrow>
          (\<exists>D. D \<subseteq> bet_id ` set (Bet_find_pending rid st)
             \<and> bets st' = map (\<lambda>y. if bet_id y \<in> D then settled S gw oc r y else y) (bets st)))
    \<and> (rounds st rid = None \<or> (\<exists>r. rounds st rid = Some r \<and> outcome r = None) \<longrightarrow>
          bets st' = bets st)
    \<and> ((\<forall>r. rounds st rid = Some r \<longrightarrow> \<not> isDelegated r) \<and> waitForRoundOutcomeOnBase gw \<noteq> None \<longrightarrow>
          bets st' = bets st \<and> rounds st' = rounds st)"
proof -
  from job_thrown[OF j] obtain m where m: "fst (settle_try S gw rid st) = Some m"
    and b: "bets st' = bets (snd (settle_try S gw rid st))"
    and r: "rounds st' = rounds (snd (settle_try S gw rid st))"
    by auto
  have f1: "\<exists>m. fst (settle_try S gw rid st) = Some m" using m by blast
  have f4: "rounds st' = rounds st
        \<or> (\<exists>r er base. rounds st rid = Some r \<and> isDelegated r
              \<and> commitAndUndelegateRoundER gw 0 = Inr (er, base)
              \<and> rounds st' = (rounds st)(rid \<mapsto> r\<lparr>undelegateTxHash := Some er,
                                                  baseLayerUndelegateTxHash := Some base\<rparr>))"
    unfolding r by (rule settle_try_rounds_fail[OF m])
  have f5: "\<forall>r oc. rounds st rid = Some r \<and> outcome r = Some oc \<longrightarrow>
          (\<exists>D. D \<subseteq> bet_id ` set (Bet_find_pending rid st)
             \<and> bets st' = map (\<lambda>y. if bet_id y \<in> D then settled S gw oc r y else y) (bets st))"
    unfolding b using settle_try_bets[OF d] by blast
  have f6: "rounds st rid = None \<or> (\<exists>r. rounds st rid = Some r \<and> outcome r = None) \<longrightarrow>
          bets st' = bets st"
    unfolding b using settle_try_no_outcome[of st rid S gw] by auto
  have f7: "(\<forall>r. rounds st rid = Some r \<longrightarrow> \<not> isDelegated r) \<and> waitForRoundOutcomeOnBase gw \<noteq> None \<longrightarrow>
          bets st' = bets st \<and> rounds st' = rounds st"
    unfolding b r using settle_try_scenario_e[of st rid gw S] by blast
  show ?thesis by (intro conjI f1 b r f4 f5 f6 f7)
qed


theorem retryable_error_mutations_witness:
  "isRetryableSettlementError ''Outcome not revealed''
   \<and> fst (processBetSettlementJob (\<lambda>_. None)
          (gateway0\<lparr>waitForRoundOutcomeOnBase := Some ''Outcome not revealed''\<rparr>)
          ''r1'' (state0 (round0\<lparr>delegateTxHash := None\<rparr>) [bet0 1 1 50]))
       = Thrown ''Outcome not revealed''
   \<and> bets (snd (processBetSettlementJob (\<lambda>_. None)
          (gateway0\<lparr>waitForRoundOutcomeOnBase := Some ''Outcome not revealed''\<rparr>)
          ''r1'' (state0 (round0\<lparr>delegateTxHash := None\<rparr>) [bet0 1 1 50])))
       = [bet0 1 1 50]
   \<and> rounds (snd (processBetSettlementJob (\<lambda>_. None)
          (gateway0\<lparr>waitForRoundOutcomeOnBase := Some ''Outcome not revealed''\<rparr>)
          ''r1'' (state0 (round0\<lparr>delegateTxHash := None\<rparr>) [bet0 1 1 50]))) ''r1''
       = Some (round0\<lparr>delegateTxHash := None\<rparr>)"
proof -
  define gw where "gw = gateway0\<lparr>waitForRoundOutcomeOnBase := Some ''Outcome not revealed''\<rparr>"
  define st where "st = state0 (round0\<lparr>delegateTxHash := None\<rparr>) [bet0 1 1 50]"
  have re: "isRetryableSettlementError ''Outcome not revealed''" by code_simp
  have d: "distinct (map bet_id (bets st))"
    by (simp add: st_def state0_def bet0_def)
  have j: "processBetSettlementJob (\<lambda>_. None) gw ''r1'' st
      = (Thrown ''Outcome not revealed'', st\<lparr>calls := [WaitForRoundOutcomeOnBase]\<rparr>)"
    using re
    by (simp add: processBetSettlementJob_def settle_try_def Round_findById_def
        Bet_find_pending_def undelegate_before_def isDelegated_def truthy_def log_call_def
        st_def state0_def round0_def gw_def gateway0_def)
  have nd: "\<forall>r. rounds st ''r1'' = Some r \<longrightarrow> \<not> isDelegated r"
    by (simp add: st_def state0_def isDelegated_def truthy_def round0_def)
  have w: "waitForRoundOutcomeOnBase gw \<noteq> None" by (simp add: gw_def)
  from retryable_error_mutations[OF d j re] nd w
  have "bets (st\<lparr>calls := [WaitForRoundOutcomeOnBase]\<rparr>) = bets st
      \<and> rounds (st\<lparr>calls := [WaitForRoundOutcomeOnBase]\<rparr>) = rounds st"
    by blast
  then show ?thesis
    unfolding gw_def[symmetric] st_def[symmetric] j using re
    by (simp add: st_def state0_def)
qed

text \<open>
  C4, as stated, fails. A delegated round is committed and undelegated, its two hashes
  are stored, and the check that follows throws the retryable error
  \<open>Round is still delegated\<close>: the run re-raises it with the Round record changed.
  And on a round that is not delegated, the first of two bets is settled and stored as
  WON, then the settle call of the second throws a retryable error: the run re-raises
  it with the first Bet record changed.
\<close>

theorem retryable_error_after_writes:
  "isRetryableSettlementError ''Round is still delegated''
   \<and> processBetSettlementJob (\<lambda>_. None)
        (gateway0\<lparr>ensureRoundUndelegated := (\<lambda>_. Some ''Round is still delegated'')\<rparr>)
        ''r1'' (state0 round0 [])
       = (Thrown ''Round is still delegated'',
          (state0 (round0\<lparr>undelegateTxHash := Some ''ertx'',
                          baseLayerUndelegateTxHash := Some ''basetx''\<rparr>) [])
            \<lparr>calls := [CommitAndUndelegateRoundER, EnsureRoundUndelegated]\<rparr>)
   \<and> undelegateTxHash round0 = None
   \<and> isRetryableSettlementError ''instruction modified data of an account it does not own''
   \<and> fst (processBetSettlementJob (\<lambda>_. None)
        (gateway0\<lparr>settleBet := (\<lambda>i. if i = 2
            then Inl ''instruction modified data of an account it does not own''
            else Inr ''settletx'')\<rparr>)
        ''r1'' (state0 round1 [bet0 1 1 50, bet0 2 1 50]))
       = Thrown ''instruction modified data of an account it does not own''
   \<and> map (\<lambda>x. (bet_id x, bet.status x, payout x))
        (bets (snd (processBetSettlementJob (\<lambda>_. None)
          (gateway0\<lparr>settleBet := (\<lambda>i. if i = 2
              then Inl ''instruction modified data of an account it does not own''
              else Inr ''settletx'')\<rparr>)
          ''r1'' (state0 round1 [bet0 1 1 50, bet0 2 1 50]))))
       = [(1, WON, Some 20), (2, PENDING, None)]"
proof -
  have e3: "isRetryableSettlementError ''Round is still delegated''" by code_simp
  have e4: "isRetryableSettlementError ''instruction modified data of an account it does not own''"
    by code_simp
  have 1: "processBetSettlementJob (\<lambda>_. None)
        (gateway0\<lparr>ensureRoundUndelegated := (\<lambda>_. Some ''Round is still delegated'')\<rparr>)
        ''r1'' (state0 round0 [])
       = (Thrown ''Round is still delegated'',
          (state0 (round0\<lparr>undelegateTxHash := Some ''ertx'',
                          baseLayerUndelegateTxHash := Some ''basetx''\<rparr>) [])
            \<lparr>calls := [CommitAndUndelegateRoundER, EnsureRoundUndelegated]\<rparr>)"
    using e3
    by (simp add: processBetSettlementJob_def settle_try_def refund_fallback_def
        Round_findById_def Bet_find_pending_def undelegate_before_def isDelegated_def truthy_def
        log_call_def state0_def round0_def gateway0_def Round_updateOne_def)
  have 2: "processBetSettlementJob (\<lambda>_. None)
        (gateway0\<lparr>settleBet := (\<lambda>i. if i = 2
            then Inl ''instruction modified data of an account it does not own''
            else Inr ''settletx'')\<rparr>)
        ''r1'' (state0 round1 [bet0 1 1 50, bet0 2 1 50])
      = (Thrown ''instruction modified data of an account it does not own'',
         (state0 round1
            [(bet0 1 1 50)\<lparr>bet.status := WON, payout := Some 20,
                            settleTxSignature := Some ''settletx''\<rparr>,
             bet0 2 1 50])
           \<lparr>calls := [WaitForRoundOutcomeOnBase, SettleBet 1, SettleBet 2]\<rparr>)"
    using e4
    by (simp add: processBetSettlementJob_def settle_try_def Round_findById_def
        Bet_find_pending_def undelegate_before_def isDelegated_def truthy_def log_call_def
        state0_def round1_def round0_def gateway0_def bet0_def obj_def js_ge_def js_le_def
        Bet_updateOne_def Let_def)
  show ?thesis
    unfolding 1 2 using e3 e4 by (simp add: round0_def bet0_def state0_def)
qed

text \<open>
  C5. \<open>refundBets\<close>, the refund pass of the admin endpoint, run on a round that is
  still delegated (\<open>delegateTxHash\<close> present, \<open>undelegateTxHash\<close> absent) with one
  pending bet: the bet is refunded on-chain and marked REFUNDED, and the only gateway
  call is the refund; the undelegation is never confirmed, which the refund fallback of
  the settlement worker does before it refunds.
\<close>

theorem refundBets_while_delegated:
  "isDelegated round0
   \<and> refundBets gateway0 ''r1'' (state0 round0 [bet0 1 1 50])
       = (Inr [(1, 10)],
          (state0 (round0\<lparr>round.status := FAILED\<rparr>)
                  [(bet0 1 1 50)\<lparr>bet.status := REFUNDED, payout := Some 10\<rparr>])
            \<lparr>calls := [RefundBet 1]\<rparr>)
   \<and> isDelegated (round0\<lparr>round.status := FAILED\<rparr>)"
  by (simp add: refundBets_def Round_findById_def Bet_find_pending_def truthy_def
      log_call_def state0_def round0_def gateway0_def Round_updateOne_def Bet_updateOne_def
      bet0_def isDelegated_def)

section \<open>Properties of the confirmation path\<close>

lemma persists_refl: "persists st st"
  by (auto simp: persists_def held_def)

lemma held_persists: "held sig i st \<Longrightarrow> persists st st' \<Longrightarrow> held sig i st'"
  by (auto simp: persists_def held_def)

lemma persists_trans: "persists st st1 \<Longrightarrow> persists st1 st2 \<Longrightarrow> persists st st2"
proof -
  assume 1: "persists st st1" and 2: "persists st1 st2"
  show ?thesis
    unfolding persists_def
  proof
    fix x assume "x \<in> set (bets st)"
    then have "held (txSignature x) (bet_id x) st1" using 1 by (simp add: persists_def)
    then show "held (txSignature x) (bet_id x) st2" using 2 by (rule held_persists)
  qed
qed

lemma ok_from_start: "store_ok st \<Longrightarrow> ok_from st st"
  by (simp add: ok_from_def persists_refl)

lemma ok_from_E: "interference_ok E \<Longrightarrow> ok_from st0 st \<Longrightarrow> ok_from st0 (E n st)"
proof -
  assume e: "interference_ok E" and o: "ok_from st0 st"
  then have "store_ok (E n st)" "persists st (E n st)"
    by (simp_all add: interference_ok_def ok_from_def)
  moreover have "persists st0 st" using o by (simp add: ok_from_def)
  ultimately show ?thesis using persists_trans by (simp add: ok_from_def)
qed

lemma held_E: "interference_ok E \<Longrightarrow> store_ok st \<Longrightarrow> held sig i st \<Longrightarrow> held sig i (E n st)"
proof -
  assume "interference_ok E" "store_ok st" and h: "held sig i st"
  then have "persists st (E n st)" by (simp add: interference_ok_def)
  with h show ?thesis by (rule held_persists)
qed

lemma ok_from_same:
  assumes "bets st' = bets st" "cache st' = cache st" "ok_from st0 st"
  shows "ok_from st0 st'"
  using assms by (simp add: ok_from_def store_ok_def persists_def held_def)

lemma redis_set_nx_same [simp]:
  "bets (snd (redis_set_nx sig st)) = bets st" "cache (snd (redis_set_nx sig st)) = cache st"
  by (simp_all add: redis_set_nx_def)

lemma redis_hset_same [simp]:
  "bets (redis_hset rid i st) = bets st" "cache (redis_hset rid i st) = cache st"
  by (simp_all add: redis_hset_def)

lemma redis_incr_same [simp]:
  "bets (redis_incr rid st) = bets st" "cache (redis_incr rid st) = cache st"
  by (simp_all add: redis_incr_def)

lemma ok_from_nx: "ok_from st0 st \<Longrightarrow> ok_from st0 (snd (redis_set_nx sig st))"
  by (rule ok_from_same) simp_all

lemma ok_from_hset: "ok_from st0 st \<Longrightarrow> ok_from st0 (redis_hset rid i st)"
  by (rule ok_from_same) simp_all

lemma ok_from_incr: "ok_from st0 st \<Longrightarrow> ok_from st0 (redis_incr rid st)"
  by (rule ok_from_same) simp_all

lemma held_hset: "held sig i (redis_hset rid j st) = held sig i st"
  by (simp add: held_def)

lemma held_incr: "held sig i (redis_incr rid st) = held sig i st"
  by (simp add: held_def)

lemma held_set_cache: "held sig i (redis_set_cache sg j st) = held sig i st"
  by (simp add: held_def redis_set_cache_def)

lemma ok_from_set_cache:
  "ok_from st0 st \<Longrightarrow> held sig i st \<Longrightarrow> ok_from st0 (redis_set_cache sig i st)"
proof -
  assume o: "ok_from st0 st" and h: "held sig i st"
  have b: "bets (redis_set_cache sig i st) = bets st" by (simp add: redis_set_cache_def)
  have c: "cache (redis_set_cache sig i st) = (cache st)(sig \<mapsto> i)"
    by (simp add: redis_set_cache_def)
  have "store_ok (redis_set_cache sig i st)"
    using o h unfolding ok_from_def store_ok_def b c held_set_cache by simp
  moreover have "persists st0 (redis_set_cache sig i st)"
    using o unfolding ok_from_def persists_def held_set_cache by simp
  ultimately show ?thesis by (simp add: ok_from_def)
qed

lemma fold_max_ge: "(x::nat) \<in> set xs \<Longrightarrow> x \<le> fold max xs m"
proof (induction xs arbitrary: m)
  case Nil
  then show ?case by simp
next
  case (Cons y ys)
  have mono: "m \<le> fold max ys m" for m :: nat
    by (induction ys arbitrary: m) (auto intro: order_trans[OF max.cobounded2])
  show ?case
  proof (cases "x = y")
    case True
    then show ?thesis using mono[of "max y m"] by simp
  next
    case False
    then show ?thesis using Cons by simp
  qed
qed

lemma fresh_id_new: "fresh_id bs \<notin> bet_id ` set bs"
proof
  assume "fresh_id bs \<in> bet_id ` set bs"
  then have "fresh_id bs \<in> set (map bet_id bs)" by simp
  then have "fresh_id bs \<le> fold max (map bet_id bs) 0" by (rule fold_max_ge)
  then show False by (simp add: fresh_id_def)
qed

lemma find_Some_set: "find P xs = Some x \<Longrightarrow> x \<in> set xs \<and> P x"
  by (induction xs) (auto split: if_splits)

lemma Bet_findOne_Some:
  "Bet_findOne sig st = Some x \<Longrightarrow> x \<in> set (bets st) \<and> txSignature x = sig"
  unfolding Bet_findOne_def by (rule find_Some_set)

lemma Bet_findOne_None:
  "Bet_findOne sig st = None \<Longrightarrow> \<forall>x\<in>set (bets st). txSignature x \<noteq> sig"
  unfolding Bet_findOne_def by (simp add: find_None_iff)

lemma Bet_findById_Some:
  "Bet_findById i st = Some x \<Longrightarrow> x \<in> set (bets st) \<and> bet_id x = i"
  unfolding Bet_findById_def by (rule find_Some_set)

lemma held_sig_unique:
  "store_ok st \<Longrightarrow> held sig i st \<Longrightarrow> held sig j st \<Longrightarrow> i = j"
proof -
  assume s: "store_ok st" and "held sig i st" "held sig j st"
  then obtain y z where y: "y \<in> set (bets st)" "bet_id y = i" "txSignature y = sig"
    and z: "z \<in> set (bets st)" "bet_id z = j" "txSignature z = sig"
    by (auto simp: held_def)
  have "inj_on txSignature (set (bets st))" using s by (simp add: store_ok_def distinct_map)
  then have "y = z" using y z by (simp add: inj_on_def)
  then show ?thesis using y z by simp
qed

lemma held_id_unique:
  "store_ok st \<Longrightarrow> held sig i st \<Longrightarrow> x \<in> set (bets st) \<Longrightarrow> bet_id x = i \<Longrightarrow> txSignature x = sig"
proof -
  assume s: "store_ok st" and "held sig i st" and x: "x \<in> set (bets st)" "bet_id x = i"
  then obtain y where y: "y \<in> set (bets st)" "bet_id y = i" "txSignature y = sig"
    by (auto simp: held_def)
  have "inj_on bet_id (set (bets st))" using s by (simp add: store_ok_def distinct_map)
  then have "y = x" using y x by (simp add: inj_on_def)
  then show ?thesis using y by simp
qed

lemma Bet_create_dup:
  "\<exists>x\<in>set (bets st). txSignature x = sig \<Longrightarrow>
   Bet_create uid rid sel stk od sig st = (Inl DuplicateKey, st)"
  by (simp add: Bet_create_def)

lemma Bet_create_ok:
  assumes "store_ok st" "Bet_create uid rid sel stk od sig st = (Inr x, st1)"
  shows "store_ok st1 \<and> persists st st1 \<and> held sig (bet_id x) st1
    \<and> bet.status x = PENDING \<and> payout x = None \<and> bets st1 = bets st @ [x]"
proof -
  define doc where "doc = \<lparr>bet_id = fresh_id (bets st), userId = uid, walletAddress = users st uid,
                    roundId = rid, selection = sel, stake = stk, odds = od,
                    bet.status = PENDING, payout = None, txSignature = sig,
                    settleTxSignature = None, refundTxSignature = None\<rparr>"
  have nodup: "\<not> (\<exists>y\<in>set (bets st). txSignature y = sig)"
  proof
    assume "\<exists>y\<in>set (bets st). txSignature y = sig"
    then have "Bet_create uid rid sel stk od sig st = (Inl DuplicateKey, st)"
      by (rule Bet_create_dup)
    then show False using assms(2) by simp
  qed
  then have "Bet_create uid rid sel stk od sig st = (Inr doc, st\<lparr>bets := bets st @ [doc]\<rparr>)"
    by (simp add: Bet_create_def Let_def doc_def)
  with assms(2) have xd: "x = doc" and st1: "st1 = st\<lparr>bets := bets st @ [x]\<rparr>"
    by auto
  have x: "bet_id x = fresh_id (bets st)" "txSignature x = sig"
    "bet.status x = PENDING" "payout x = None"
    by (simp_all add: xd doc_def)
  have b: "bets st1 = bets st @ [x]" and c: "cache st1 = cache st" by (simp_all add: st1)
  have idnew: "bet_id x \<notin> bet_id ` set (bets st)" using fresh_id_new x(1) by metis
  have signew: "txSignature x \<notin> txSignature ` set (bets st)"
  proof
    assume "txSignature x \<in> txSignature ` set (bets st)"
    then obtain y where "y \<in> set (bets st)" "txSignature y = txSignature x" by auto
    then show False using nodup x(2) by auto
  qed
  have h: "held s i st \<Longrightarrow> held s i st1" for s i by (auto simp: held_def b)
  have "store_ok st1"
    using assms(1) idnew signew h unfolding store_ok_def b c by simp
  moreover have "persists st st1" using h by (auto simp: persists_def held_def)
  moreover have "held sig (bet_id x) st1" by (simp add: held_def b x)
  ultimately show ?thesis using x b by simp
qed

lemma okh_E: "interference_ok E \<Longrightarrow> okh st0 sig i st \<Longrightarrow> okh st0 sig i (E n st)"
proof -
  assume e: "interference_ok E" and "okh st0 sig i st"
  then have o: "ok_from st0 st" and h: "held sig i st" by (simp_all add: okh_def)
  then have "store_ok st" by (simp add: ok_from_def)
  then have "held sig i (E n st)" using h by (rule held_E[OF e])
  moreover have "ok_from st0 (E n st)" using o by (rule ok_from_E[OF e])
  ultimately show ?thesis by (simp add: okh_def)
qed

lemma okh_set_cache: "okh st0 sig i st \<Longrightarrow> okh st0 sig i (redis_set_cache sig i st)"
  unfolding okh_def using ok_from_set_cache by (simp add: held_set_cache)

lemma okh_hset: "okh st0 sig i st \<Longrightarrow> okh st0 sig i (redis_hset rid j st)"
  unfolding okh_def using ok_from_hset by (simp add: held_hset)

lemma okh_incr: "okh st0 sig i st \<Longrightarrow> okh st0 sig i (redis_incr rid st)"
  unfolding okh_def using ok_from_incr by (simp add: held_incr)

lemma returns_stored_err: "ok_from st0 st \<Longrightarrow> returns_stored sig st0 (Inl e, st)"
  by (simp add: returns_stored_def)

lemma returns_stored_okh:
  "okh st0 sig (bet_id x) st \<Longrightarrow> returns_stored sig st0 (Inr (confirmed x sig), st)"
  by (simp add: returns_stored_def okh_def confirmed_def)

lemma processBetConfirmation_stored:
  assumes e: "interference_ok E" and o: "ok_from st0 st"
  shows "returns_stored sig st0
           (processBetConfirmation E S uid rid r info sig stk sel st)"
proof -
  define fs where "fs = (case info of
               Some decoded \<Rightarrow> (case dec_stake decoded of Some s \<Rightarrow> s | None \<Rightarrow> stk)
             | None \<Rightarrow> stk)"
  define fsel where "fsel = (case info of
               Some decoded \<Rightarrow>
                 (case dec_selection decoded of
                    Some enc \<Rightarrow> decodeSelection enc (market_type r)
                  | None \<Rightarrow> sel)
             | None \<Rightarrow> sel)"
  define he where "he = (case market_houseEdgeBps r of Some e \<Rightarrow> e | None \<Rightarrow> 0)"
  obtain res st1 where c: "Bet_create uid rid fsel fs (calculateOdds S fsel (market_type r) he) sig st
      = (res, st1)" by (cases "Bet_create uid rid fsel fs (calculateOdds S fsel (market_type r) he) sig st")
  have so: "store_ok st" and p0: "persists st0 st" using o by (simp_all add: ok_from_def)
  show ?thesis
  proof (cases res)
    case (Inr x)
    from Bet_create_ok[OF so c[unfolded Inr]]
    have "store_ok st1" "persists st st1" "held sig (bet_id x) st1" by simp_all
    then have "okh st0 sig (bet_id x) st1"
      using p0 persists_trans by (simp add: okh_def ok_from_def)
    then have "okh st0 sig (bet_id x)
        (E 9 (redis_incr rid (E 8 (redis_hset rid (bet_id x)
           (E 7 (redis_set_cache sig (bet_id x) (E 6 st1)))))))"
      by (intro okh_E[OF e] okh_incr okh_hset okh_set_cache)
    then show ?thesis
      using c Inr
      by (simp add: processBetConfirmation_def fs_def fsel_def he_def returns_stored_okh)
  next
    case (Inl err)
    then have err: "err = DuplicateKey" and st1: "st1 = st"
      using c by (auto simp: Bet_create_def Let_def split: if_splits)
    show ?thesis
    proof (cases "Bet_findOne sig (E 6 st)")
      case None
      have "ok_from st0 (E 7 (E 6 st))" by (intro ok_from_E[OF e] o)
      then show ?thesis
        using c Inl err st1 None
        by (simp add: processBetConfirmation_def fs_def fsel_def he_def returns_stored_err)
    next
      case (Some ex)
      then have "held sig (bet_id ex) (E 6 st)"
        using Bet_findOne_Some[OF Some] by (auto simp: held_def)
      then have "okh st0 sig (bet_id ex) (E 6 st)"
        using ok_from_E[OF e o] by (simp add: okh_def)
      then have "okh st0 sig (bet_id ex) (E 7 (E 6 st))"
        by (rule okh_E[OF e])
      then have "okh st0 sig (bet_id ex) (redis_set_cache sig (bet_id ex) (E 7 (E 6 st)))"
        by (rule okh_set_cache)
      then have "okh st0 sig (bet_id ex)
          (E 8 (redis_set_cache sig (bet_id ex) (E 7 (E 6 st))))"
        by (rule okh_E[OF e])
      then show ?thesis
        using c Inl err st1 Some
        by (simp add: processBetConfirmation_def fs_def fsel_def he_def returns_stored_okh)
    qed
  qed
qed

lemma processBetConfirmation_duplicate:
  assumes e: "interference_ok E" and so: "store_ok st"
    and y: "y \<in> set (bets st)" "txSignature y = sig"
  shows "\<exists>x. fst (processBetConfirmation E S uid rid r info sig stk sel st) = Inr x
            \<and> bet_id x = bet_id y"
proof -
  define fs where "fs = (case info of
               Some decoded \<Rightarrow> (case dec_stake decoded of Some s \<Rightarrow> s | None \<Rightarrow> stk)
             | None \<Rightarrow> stk)"
  define fsel where "fsel = (case info of
               Some decoded \<Rightarrow>
                 (case dec_selection decoded of
                    Some enc \<Rightarrow> decodeSelection enc (market_type r)
                  | None \<Rightarrow> sel)
             | None \<Rightarrow> sel)"
  define he where "he = (case market_houseEdgeBps r of Some e \<Rightarrow> e | None \<Rightarrow> 0)"
  have c: "Bet_create uid rid fsel fs (calculateOdds S fsel (market_type r) he) sig st
      = (Inl DuplicateKey, st)"
    by (rule Bet_create_dup) (use y in auto)
  have hy: "held sig (bet_id y) st" using y by (auto simp: held_def)
  then have hy6: "held sig (bet_id y) (E 6 st)" by (rule held_E[OF e so])
  have so6: "store_ok (E 6 st)" using e so by (simp add: interference_ok_def)
  have "Bet_findOne sig (E 6 st) \<noteq> None"
  proof
    assume "Bet_findOne sig (E 6 st) = None"
    from Bet_findOne_None[OF this] hy6 show False by (auto simp: held_def)
  qed
  then obtain ex where ex: "Bet_findOne sig (E 6 st) = Some ex" by auto
  then have "held sig (bet_id ex) (E 6 st)"
    using Bet_findOne_Some[OF ex] by (auto simp: held_def)
  then have "bet_id ex = bet_id y" using held_sig_unique[OF so6] hy6 by simp
  then show ?thesis
    using c ex
    by (simp add: processBetConfirmation_def fs_def fsel_def he_def confirmed_def)
qed

lemma confirm_round_stored:
  assumes e: "interference_ok E" and o: "ok_from st0 st"
  shows "returns_stored sig st0 (confirm_round E S chain uid rid sel stk sig st)"
proof -
  have o4: "ok_from st0 (E 4 st)" by (intro ok_from_E[OF e] o)
  have o5: "ok_from st0 (E 5 (E 4 st))" by (intro ok_from_E[OF e] o)
  show ?thesis
    unfolding confirm_round_def
    using o4 o5 processBetConfirmation_stored[OF e o5]
    by (auto simp: returns_stored_err split: option.splits)
qed

lemma confirmBet_stored:
  assumes e: "interference_ok E" and so: "store_ok st"
  shows "returns_stored sig st (confirmBet E S chain uid rid sel stk sig st)"
proof -
  obtain acq st1 where nx: "redis_set_nx sig st = (acq, st1)" by (cases "redis_set_nx sig st")
  have o1: "ok_from st st1"
    using ok_from_nx[OF ok_from_start[OF so], of sig] nx by simp
  have o0: "ok_from st (E 0 st1)" by (intro ok_from_E[OF e] o1)
  have o01: "ok_from st (E 1 (E 0 st1))" by (intro ok_from_E[OF e] o1)
  have o012: "ok_from st (E 2 (E 1 (E 0 st1)))" by (intro ok_from_E[OF e] o1)
  have o0123: "ok_from st (E 3 (E 2 (E 1 (E 0 st1))))" by (intro ok_from_E[OF e] o1)
  show ?thesis
  proof (cases acq)
    case True
    then show ?thesis
      using nx confirm_round_stored[OF e o0] by (simp add: confirmBet_def)
  next
    case False
    show ?thesis
    proof (cases "Bet_findOne sig (E 0 st1)")
      case (Some dup)
      have "held sig (bet_id dup) (E 0 st1)"
        using Bet_findOne_Some[OF Some] by (auto simp: held_def)
      then have "okh st sig (bet_id dup) (E 0 st1)" using o0 by (simp add: okh_def)
      then have "okh st sig (bet_id dup) (E 1 (E 0 st1))" by (rule okh_E[OF e])
      then show ?thesis
        using nx False Some by (simp add: confirmBet_def returns_stored_okh)
    next
      case None
      show ?thesis
      proof (cases "cache (E 1 (E 0 st1)) sig")
        case N2: None
        then show ?thesis
          using nx False None confirm_round_stored[OF e o012]
          by (simp add: confirmBet_def)
      next
        case (Some i)
        show ?thesis
        proof (cases "Bet_findById i (E 2 (E 1 (E 0 st1)))")
          case N3: None
          then show ?thesis
            using nx False None Some confirm_round_stored[OF e o0123]
            by (simp add: confirmBet_def)
        next
          case S3: (Some ex)
          have so01: "store_ok (E 1 (E 0 st1))" using o01 by (simp add: ok_from_def)
          then have "held sig i (E 1 (E 0 st1))" using Some by (simp add: store_ok_def)
          then have h2: "held sig i (E 2 (E 1 (E 0 st1)))" by (rule held_E[OF e so01])
          have so012: "store_ok (E 2 (E 1 (E 0 st1)))" using o012 by (simp add: ok_from_def)
          have "bet_id ex = i" using Bet_findById_Some[OF S3] by simp
          then have "okh st sig (bet_id ex) (E 2 (E 1 (E 0 st1)))"
            using h2 o012 by (simp add: okh_def)
          then have "okh st sig (bet_id ex) (E 3 (E 2 (E 1 (E 0 st1))))" by (rule okh_E[OF e])
          then show ?thesis
            using nx False None Some S3 by (simp add: confirmBet_def returns_stored_okh)
        qed
      qed
    qed
  qed
qed

lemma distinct_filter_le1:
  "distinct (map f xs) \<Longrightarrow> length (filter (\<lambda>y. f y = s) xs) \<le> 1"
proof (induction xs)
  case Nil
  then show ?case by simp
next
  case (Cons x xs)
  show ?case
  proof (cases "f x = s")
    case True
    then have "\<forall>y\<in>set xs. f y \<noteq> s" using Cons.prems by (metis distinct.simps(2) imageI list.simps(9) set_map)
    then have "filter (\<lambda>y. f y = s) xs = []" by (simp add: filter_empty_conv)
    then show ?thesis using True by simp
  next
    case False
    then show ?thesis using Cons by simp
  qed
qed

lemma interference_none: "interference_ok (\<lambda>n s. s)"
  by (simp add: interference_ok_def persists_refl)

text \<open>
  Settlement runs and refund passes write neither an id nor a signature nor the cache:
  they are interference that \<open>interference_ok\<close> admits, and the store is well formed
  in every reachable state.
\<close>

lemma cache_simps [simp]:
  "cache (log_call cl st) = cache st"
  "cache (Round_updateOne rid f st) = cache st"
  "cache (Bet_updateOne i g st) = cache st"
  by (simp_all add: log_call_def Round_updateOne_def Bet_updateOne_def)

lemma keys_simps [simp]:
  "keys_of (log_call cl st) = keys_of st"
  "keys_of (Round_updateOne rid f st) = keys_of st"
  by (simp_all add: keys_of_def)

lemma update_first_keys:
  "(\<And>y. bet_id (f y) = bet_id y \<and> txSignature (f y) = txSignature y) \<Longrightarrow>
   map (\<lambda>x. (bet_id x, txSignature x)) (update_first i f xs)
     = map (\<lambda>x. (bet_id x, txSignature x)) xs"
  by (induction xs) auto

lemma Bet_updateOne_keys:
  "(\<And>y. bet_id (f y) = bet_id y \<and> txSignature (f y) = txSignature y) \<Longrightarrow>
   keys_of (Bet_updateOne i f st) = keys_of st"
  by (simp add: keys_of_def update_first_keys)

lemma settle_loop_keys [simp]:
  "keys_of (snd (settle_loop S gw oc r ps st)) = keys_of st
   \<and> cache (snd (settle_loop S gw oc r ps st)) = cache st"
  by (induction ps arbitrary: st)
     (auto simp: Let_def Bet_updateOne_keys split: option.splits sum.splits)

lemma refund_loop_keys [simp]:
  "keys_of (refund_loop gw mint ps st) = keys_of st
   \<and> cache (refund_loop gw mint ps st) = cache st"
  by (induction ps arbitrary: st) (auto simp: Bet_updateOne_keys split: sum.splits)

lemma refundBets_loop_keys [simp]:
  "keys_of (snd (refundBets_loop gw ps st)) = keys_of st
   \<and> cache (snd (refundBets_loop gw ps st)) = cache st"
proof (induction ps arbitrary: st)
  case Nil
  show ?case by simp
next
  case (Cons x rest)
  show ?case
    unfolding refundBets_loop_snd
    by (simp add: Cons.IH Bet_updateOne_keys split: sum.splits)
qed

lemma undelegate_before_keys [simp]:
  "keys_of (snd (undelegate_before gw rid r st)) = keys_of st
   \<and> cache (snd (undelegate_before gw rid r st)) = cache st"
  by (auto simp: undelegate_before_def Let_def split: sum.splits prod.splits)

lemma undelegate_retry_keys [simp]:
  "keys_of (undelegate_retry gw rid n st) = keys_of st
   \<and> cache (undelegate_retry gw rid n st) = cache st"
  by (induction gw rid n st rule: undelegate_retry.induct)
     (subst (1 2) undelegate_retry.simps, auto split: sum.splits prod.splits)

lemma finish_round_keys [simp]:
  "keys_of (finish_round gw rid st) = keys_of st \<and> cache (finish_round gw rid st) = cache st"
  by (simp add: finish_round_def Let_def)

lemma settle_try_keys [simp]:
  "keys_of (snd (settle_try S gw rid st)) = keys_of st
   \<and> cache (snd (settle_try S gw rid st)) = cache st"
proof (cases "rounds st rid")
  case None
  then show ?thesis by (simp add: settle_try_no_outcome)
next
  case (Some r)
  obtain u st1 where ub: "undelegate_before gw rid r st = (u, st1)"
    by (cases "undelegate_before gw rid r st")
  then have k1: "keys_of st1 = keys_of st" "cache st1 = cache st"
    using undelegate_before_keys[of gw rid r st] by simp_all
  obtain v st2 where sl: "settle_loop S gw (the (outcome r)) r (Bet_find_pending rid st)
      (log_call WaitForRoundOutcomeOnBase st1) = (v, st2)"
    by (cases "settle_loop S gw (the (outcome r)) r (Bet_find_pending rid st)
      (log_call WaitForRoundOutcomeOnBase st1)")
  then have k2: "keys_of st2 = keys_of st" "cache st2 = cache st"
    using settle_loop_keys[of S gw "the (outcome r)" r "Bet_find_pending rid st"
        "log_call WaitForRoundOutcomeOnBase st1"] k1 by simp_all
  show ?thesis
    using Some ub sl k1 k2
    by (auto simp: settle_try_def Let_def Round_findById_def split: option.splits)
qed

lemma refund_fallback_keys [simp]:
  "keys_of (snd (refund_fallback gw rid st)) = keys_of st
   \<and> cache (snd (refund_fallback gw rid st)) = cache st"
  by (auto simp: refund_fallback_def Round_findById_def Let_def split: option.splits)

lemma job_keys:
  "keys_of (snd (processBetSettlementJob S gw rid st)) = keys_of st
   \<and> cache (snd (processBetSettlementJob S gw rid st)) = cache st"
proof -
  obtain u st1 where t: "settle_try S gw rid st = (u, st1)" by (cases "settle_try S gw rid st")
  then have "keys_of st1 = keys_of st" "cache st1 = cache st"
    using settle_try_keys[of S gw rid st] by simp_all
  then show ?thesis using t refund_fallback_keys[of gw rid st1]
    by (auto simp: processBetSettlementJob_def split: option.splits)
qed

lemma refundBets_keys:
  "keys_of (snd (refundBets gw rid st)) = keys_of st
   \<and> cache (snd (refundBets gw rid st)) = cache st"
proof -
  obtain u st1 where t: "refundBets_loop gw (Bet_find_pending rid st) st = (u, st1)"
    by (cases "refundBets_loop gw (Bet_find_pending rid st) st")
  then have "keys_of st1 = keys_of st" "cache st1 = cache st"
    using refundBets_loop_keys[of gw "Bet_find_pending rid st" st] by simp_all
  then show ?thesis using t
    by (auto simp: refundBets_def Round_findById_def split: option.splits)
qed

lemma held_keys: "held sig i st = ((i, sig) \<in> set (keys_of st))"
  by (auto simp: held_def keys_of_def)

lemma store_ok_keys:
  "store_ok st = (distinct (map fst (keys_of st)) \<and> distinct (map snd (keys_of st))
      \<and> (\<forall>sig i. cache st sig = Some i \<longrightarrow> (i, sig) \<in> set (keys_of st)))"
  unfolding store_ok_def held_keys by (simp add: keys_of_def comp_def)

lemma same_keys_ok:
  assumes "keys_of st' = keys_of st" "cache st' = cache st" "store_ok st"
  shows "store_ok st' \<and> persists st st'"
proof -
  have "store_ok st'" using assms by (simp add: store_ok_keys)
  moreover have "persists st st'"
    unfolding persists_def held_keys assms(1) by (auto simp: keys_of_def)
  ultimately show ?thesis by simp
qed

lemma job_store_ok:
  "store_ok st \<Longrightarrow> store_ok (snd (processBetSettlementJob S gw rid st))
     \<and> persists st (snd (processBetSettlementJob S gw rid st))"
  using job_keys[of S gw rid st] by (intro same_keys_ok) simp_all

lemma refundBets_store_ok:
  "store_ok st \<Longrightarrow> store_ok (snd (refundBets gw rid st))
     \<and> persists st (snd (refundBets gw rid st))"
  using refundBets_keys[of gw rid st] by (intro same_keys_ok) simp_all

lemma reachable_store_ok: "reachable st \<Longrightarrow> store_ok st"
proof (induction rule: reachable.induct)
  case (start st)
  then show ?case by (simp add: store_ok_def)
next
  case (confirm st S chain uid rid sel stk sig)
  from confirmBet_stored[OF interference_none confirm.IH, of sig S chain uid rid sel stk]
  show ?case by (simp add: returns_stored_def ok_from_def)
next
  case (settle st S gw rid)
  then show ?case using job_store_ok by blast
next
  case (refund st gw rid)
  then show ?case using refundBets_store_ok by blast
next
  case (lifecycle st rs us ls)
  then show ?case by (simp add: store_ok_def held_def)
qed

section \<open>Claims about the bet confirmation\<close>

text \<open>
  C1. Take any state whose store is well formed (\<open>store_ok\<close>: unique ids, the unique
  index on \<open>txSignature\<close>, a cache that points to stored bets) and any interference
  by concurrent calls between the steps of this call (\<open>interference_ok\<close>). After a
  \<open>confirmBet\<close> call the store is well formed again, no bet was deleted, and at most
  one bet is stored for any signature. A call that returns a record returns the id of a
  stored bet with the call's signature; this is the id of the bet that was already
  stored for the signature before the call, if there was one, and the id of the bet
  stored for the signature in every later state. When a bet with the signature is
  already stored, so that \<open>Bet.create\<close> fails with the duplicate-key error,
  \<open>processBetConfirmation\<close> returns that bet and raises no error.
\<close>

theorem confirmBet_idempotent:
  assumes so: "store_ok st" and e: "interference_ok E"
  shows "store_ok (snd (confirmBet E S chain uid rid sel stk sig st))
    \<and> persists st (snd (confirmBet E S chain uid rid sel stk sig st))
    \<and> (\<forall>s. length (filter (\<lambda>y. txSignature y = s)
                     (bets (snd (confirmBet E S chain uid rid sel stk sig st)))) \<le> 1)
    \<and> (\<forall>x. fst (confirmBet E S chain uid rid sel stk sig st) = Inr x \<longrightarrow>
          (\<exists>y\<in>set (bets (snd (confirmBet E S chain uid rid sel stk sig st))).
              bet_id y = bet_id x \<and> txSignature y = sig)
          \<and> (\<forall>y\<in>set (bets st). txSignature y = sig \<longrightarrow> bet_id x = bet_id y)
          \<and> (\<forall>st''. store_ok st''
                 \<and> persists (snd (confirmBet E S chain uid rid sel stk sig st)) st'' \<longrightarrow>
                 (\<forall>z\<in>set (bets st''). txSignature z = sig \<longrightarrow> bet_id z = bet_id x)))
    \<and> (\<forall>y\<in>set (bets st). txSignature y = sig \<longrightarrow>
          (\<exists>x. fst (processBetConfirmation E S uid rid r info sig stk sel st) = Inr x
               \<and> bet_id x = bet_id y))"
proof -
  let ?out = "confirmBet E S chain uid rid sel stk sig st"
  from confirmBet_stored[OF e so, of sig S chain uid rid sel stk]
  have o: "ok_from st (snd ?out)" and h: "\<And>x. fst ?out = Inr x \<Longrightarrow> held sig (bet_id x) (snd ?out)"
    by (simp_all add: returns_stored_def)
  have f1: "store_ok (snd ?out)" and f2: "persists st (snd ?out)"
    using o by (simp_all add: ok_from_def)
  have f3: "\<forall>s. length (filter (\<lambda>y. txSignature y = s) (bets (snd ?out))) \<le> 1"
  proof -
    have "distinct (map txSignature (bets (snd ?out)))" using f1 by (simp add: store_ok_def)
    then show ?thesis by (intro allI distinct_filter_le1)
  qed
  have f4: "\<forall>x. fst ?out = Inr x \<longrightarrow>
          (\<exists>y\<in>set (bets (snd ?out)). bet_id y = bet_id x \<and> txSignature y = sig)
          \<and> (\<forall>y\<in>set (bets st). txSignature y = sig \<longrightarrow> bet_id x = bet_id y)
          \<and> (\<forall>st''. store_ok st'' \<and> persists (snd ?out) st'' \<longrightarrow>
                 (\<forall>z\<in>set (bets st''). txSignature z = sig \<longrightarrow> bet_id z = bet_id x))"
  proof (intro allI impI conjI ballI)
    fix x assume x: "fst ?out = Inr x"
    show "\<exists>y\<in>set (bets (snd ?out)). bet_id y = bet_id x \<and> txSignature y = sig"
      using h[OF x] by (simp add: held_def)
  next
    fix x y assume x: "fst ?out = Inr x" and y: "y \<in> set (bets st)" "txSignature y = sig"
    have "held sig (bet_id y) st" using y by (auto simp: held_def)
    then have "held sig (bet_id y) (snd ?out)" using f2 by (rule held_persists)
    then show "bet_id x = bet_id y" using held_sig_unique[OF f1 h[OF x]] by simp
  next
    fix x st'' z assume x: "fst ?out = Inr x"
      and s: "store_ok st'' \<and> persists (snd ?out) st''"
      and z: "z \<in> set (bets st'')" "txSignature z = sig"
    have "held sig (bet_id x) st''" using h[OF x] s held_persists by blast
    moreover have "held sig (bet_id z) st''" using z by (auto simp: held_def)
    ultimately show "bet_id z = bet_id x" using held_sig_unique s by blast
  qed
  have f5: "\<forall>y\<in>set (bets st). txSignature y = sig \<longrightarrow>
          (\<exists>x. fst (processBetConfirmation E S uid rid r info sig stk sel st) = Inr x
               \<and> bet_id x = bet_id y)"
    using processBetConfirmation_duplicate[OF e so] by blast
  show ?thesis by (intro conjI f1 f2 f3 f4 f5)
qed

theorem confirmBet_idempotent_witness:
  "store_ok state1 \<and> interference_ok (\<lambda>n s. s)
   \<and> fst (confirmBet (\<lambda>n s. s) (\<lambda>_. None) (account0 51 100) ''user'' ''r1'' (\<lambda>_. JUndef) 10 ''sig'' state1)
       = Inr (bet0 1 51 100)
   \<and> bets (snd (confirmBet (\<lambda>n s. s) (\<lambda>_. None) (account0 51 100) ''user'' ''r1'' (\<lambda>_. JUndef) 10 ''sig''
                  state1))
       = [bet0 1 51 100]
   \<and> store_ok (snd (confirmBet (\<lambda>n s. s) (\<lambda>_. None) (account0 51 100) ''user'' ''r1'' (\<lambda>_. JUndef) 10
                      ''sig'' state1))
   \<and> length (filter (\<lambda>y. txSignature y = ''sig'')
        (bets (snd (confirmBet (\<lambda>n s. s) (\<lambda>_. None) (account0 51 100) ''user'' ''r1'' (\<lambda>_. JUndef) 10 ''sig''
                      state1)))) \<le> 1"
proof -
  have so: "store_ok state1"
    by (simp add: store_ok_def held_def state1_def state0_def bet0_def)
  have e: "interference_ok (\<lambda>n s. s)" by (rule interference_none)
  have c: "confirmBet (\<lambda>n s. s) (\<lambda>_. None) (account0 51 100) ''user'' ''r1'' (\<lambda>_. JUndef) 10 ''sig'' state1
      = (Inr (bet0 1 51 100), state1\<lparr>locks := {''sig''}\<rparr>)"
    by (simp add: confirmBet_def confirm_round_def processBetConfirmation_def redis_set_nx_def
      Round_findById_def poll_loop.simps Bet_create_def Bet_findOne_def redis_set_cache_def
      confirmed_def state1_def state0_def round0_def account0_def bet0_def Let_def)
  from confirmBet_idempotent[OF so e, of "\<lambda>_. None" "account0 51 100" "''user''" "''r1''" "\<lambda>_. JUndef" 10 "''sig''"]
  have "store_ok (snd (confirmBet (\<lambda>n s. s) (\<lambda>_. None) (account0 51 100) ''user'' ''r1'' (\<lambda>_. JUndef) 10
                      ''sig'' state1))"
    and "length (filter (\<lambda>y. txSignature y = ''sig'')
        (bets (snd (confirmBet (\<lambda>n s. s) (\<lambda>_. None) (account0 51 100) ''user'' ''r1'' (\<lambda>_. JUndef) 10 ''sig''
                      state1)))) \<le> 1"
    by blast+
  then show ?thesis using so e c by (simp add: state1_def state0_def)
qed

section \<open>Properties of the payout field\<close>

lemma payout_ok_settled:
  "payout_ok x \<Longrightarrow> bet.status x = PENDING \<Longrightarrow> payout_ok (settled S gw oc r x)"
  by (simp add: payout_ok_def settled_def split: sum.splits)

lemma payout_ok_refunded:
  "payout_ok x \<Longrightarrow> bet.status x = PENDING \<Longrightarrow> payout_ok (refunded gw mint x)"
  by (simp add: payout_ok_def refunded_def split: sum.splits)

lemma settle_try_payout:
  assumes d: "distinct (map bet_id (bets st))" and p: "\<forall>x\<in>set (bets st). payout_ok x"
  shows "\<forall>x\<in>set (bets (snd (settle_try S gw rid st))). payout_ok x"
proof (cases "rounds st rid")
  case None
  then show ?thesis using p by (simp add: settle_try_no_outcome)
next
  case (Some r)
  show ?thesis
  proof (cases "outcome r")
    case None
    then show ?thesis using p Some by (simp add: settle_try_no_outcome)
  next
    case (Some oc)
    from settle_try_bets[OF d \<open>rounds st rid = Some r\<close> Some, of S gw]
    obtain D where D: "D \<subseteq> bet_id ` set (Bet_find_pending rid st)"
      and b: "bets (snd (settle_try S gw rid st))
               = map (\<lambda>y. if bet_id y \<in> D then settled S gw oc r y else y) (bets st)"
      by blast
    show ?thesis
      unfolding b
    proof
      fix x assume "x \<in> set (map (\<lambda>y. if bet_id y \<in> D then settled S gw oc r y else y) (bets st))"
      then obtain y where y: "y \<in> set (bets st)"
        and x: "x = (if bet_id y \<in> D then settled S gw oc r y else y)" by auto
      show "payout_ok x"
      proof (cases "bet_id y \<in> D")
        case True
        then have "bet_id y \<in> bet_id ` set (Bet_find_pending rid st)" using D by blast
        then have "bet.status y = PENDING" using pending_ids'[OF d y] by simp
        then show ?thesis using x True p y by (simp add: payout_ok_settled)
      next
        case False
        then show ?thesis using x p y by simp
      qed
    qed
  qed
qed

lemma refund_fallback_payout:
  assumes d: "distinct (map bet_id (bets st))" and p: "\<forall>x\<in>set (bets st). payout_ok x"
  shows "\<forall>x\<in>set (bets (snd (refund_fallback gw rid st))). payout_ok x"
proof (cases "rounds st rid")
  case None
  then show ?thesis using p by (simp add: refund_fallback_def Round_findById_def)
next
  case (Some r)
  show ?thesis
  proof (cases "Bet_find_pending rid st \<noteq> [] \<and> ensureRoundUndelegated gw 1 = None")
    case False
    then show ?thesis using p Some
      by (auto simp: refund_fallback_def Round_findById_def Let_def split: option.splits)
  next
    case True
    define st2 where "st2 = log_call EnsureRoundUndelegated st"
    have b: "bets (snd (refund_fallback gw rid st))
        = bets (refund_loop gw (market_mintAddress r) (Bet_find_pending rid st) st2)"
      using True Some by (simp add: refund_fallback_def Round_findById_def Let_def st2_def)
    have b2: "bets (refund_loop gw (market_mintAddress r) (Bet_find_pending rid st) st2)
        = map (\<lambda>y. if bet_id y \<in> bet_id ` set (Bet_find_pending rid st)
                    then refunded gw (market_mintAddress r) y else y) (bets st)"
      using refund_loop_effect[of st2 "Bet_find_pending rid st" gw "market_mintAddress r"]
        d pending_subset[of rid st] pending_distinct[OF d, of rid]
      by (simp add: st2_def)
    show ?thesis
      unfolding b b2
    proof
      fix x assume "x \<in> set (map (\<lambda>y. if bet_id y \<in> bet_id ` set (Bet_find_pending rid st)
                    then refunded gw (market_mintAddress r) y else y) (bets st))"
      then obtain y where y: "y \<in> set (bets st)"
        and x: "x = (if bet_id y \<in> bet_id ` set (Bet_find_pending rid st)
                    then refunded gw (market_mintAddress r) y else y)" by auto
      show "payout_ok x"
      proof (cases "bet_id y \<in> bet_id ` set (Bet_find_pending rid st)")
        case True
        then have "bet.status y = PENDING" using pending_ids'[OF d y] by simp
        then show ?thesis using x True p y by (simp add: payout_ok_refunded)
      next
        case False
        then show ?thesis using x p y by simp
      qed
    qed
  qed
qed

lemma refund_fallback_ids [simp]:
  "map bet_id (bets (snd (refund_fallback gw rid st))) = map bet_id (bets st)"
  by (auto simp: refund_fallback_def Round_findById_def Let_def split: option.splits)

lemma job_ids [simp]:
  "map bet_id (bets (snd (processBetSettlementJob S gw rid st))) = map bet_id (bets st)"
proof -
  obtain u st1 where t: "settle_try S gw rid st = (u, st1)" by (cases "settle_try S gw rid st")
  then have "map bet_id (bets st1) = map bet_id (bets st)"
    using settle_try_ids[of S gw rid st] by simp
  then show ?thesis using t refund_fallback_ids[of gw rid st1]
    by (auto simp: processBetSettlementJob_def split: option.splits)
qed

lemma job_payout:
  assumes d: "distinct (map bet_id (bets st))" and p: "\<forall>x\<in>set (bets st). payout_ok x"
  shows "\<forall>x\<in>set (bets (snd (processBetSettlementJob S gw rid st))). payout_ok x"
proof -
  obtain u st1 where t: "settle_try S gw rid st = (u, st1)" by (cases "settle_try S gw rid st")
  have p1: "\<forall>x\<in>set (bets st1). payout_ok x"
    using settle_try_payout[OF d p, of S gw rid] t by simp
  have d1: "distinct (map bet_id (bets st1))"
    using d settle_try_ids[of S gw rid st] t by simp
  show ?thesis
    using t p1 refund_fallback_payout[OF d1 p1, of gw rid]
    by (auto simp: processBetSettlementJob_def split: option.splits)
qed

lemma processBetConfirmation_bets:
  "bets (snd (processBetConfirmation (\<lambda>n s. s) S uid rid r info sig stk sel st)) = bets st
   \<or> (\<exists>x. bets (snd (processBetConfirmation (\<lambda>n s. s) S uid rid r info sig stk sel st))
              = bets st @ [x]
          \<and> bet.status x = PENDING \<and> payout x = None \<and> bet_id x = fresh_id (bets st))"
  by (auto simp: processBetConfirmation_def Bet_create_def Let_def redis_set_cache_def
      redis_hset_def redis_incr_def split: option.splits)

lemma confirm_round_bets:
  "bets (snd (confirm_round (\<lambda>n s. s) S chain uid rid sel stk sig st)) = bets st
   \<or> (\<exists>x. bets (snd (confirm_round (\<lambda>n s. s) S chain uid rid sel stk sig st)) = bets st @ [x]
          \<and> bet.status x = PENDING \<and> payout x = None \<and> bet_id x = fresh_id (bets st))"
  using processBetConfirmation_bets
  by (auto simp: confirm_round_def split: option.splits)

lemma confirmBet_bets:
  "bets (snd (confirmBet (\<lambda>n s. s) S chain uid rid sel stk sig st)) = bets st
   \<or> (\<exists>x. bets (snd (confirmBet (\<lambda>n s. s) S chain uid rid sel stk sig st)) = bets st @ [x]
          \<and> bet.status x = PENDING \<and> payout x = None \<and> bet_id x = fresh_id (bets st))"
proof -
  have nx: "bets (snd (redis_set_nx sig st)) = bets st" by simp
  obtain acq st1 where s: "redis_set_nx sig st = (acq, st1)" by (cases "redis_set_nx sig st")
  then have b1: "bets st1 = bets st" using nx by simp
  show ?thesis
    using s b1 confirm_round_bets[of S chain uid rid sel stk sig st1]
    by (auto simp: confirmBet_def split: option.splits bool.splits)
qed

lemma map_ids_same:
  "(\<And>y. bet_id (h y) = bet_id y) \<Longrightarrow> map bet_id (map h xs) = map bet_id xs"
  by (induction xs) auto

lemma refundBets_loop_payout:
  "distinct (map bet_id (bets st)) \<Longrightarrow> set ps \<subseteq> set (bets st) \<Longrightarrow> distinct (map bet_id ps) \<Longrightarrow>
   \<forall>x\<in>set ps. bet.status x = PENDING \<Longrightarrow> \<forall>x\<in>set (bets st). payout_ok x \<Longrightarrow>
   (\<forall>x\<in>set (bets (snd (refundBets_loop gw ps st))). payout_ok x)
   \<and> map bet_id (bets (snd (refundBets_loop gw ps st))) = map bet_id (bets st)"
proof (induction ps arbitrary: st)
  case Nil
  then show ?case by simp
next
  case (Cons x rest)
  define g where "g = (\<lambda>y::bet. y\<lparr>bet.status := REFUNDED, payout := Some (stake y)\<rparr>)"
  define f where "f = (\<lambda>y::bet. y\<lparr>bet.status := REFUNDED, payout := Some (stake x)\<rparr>)"
  define st1 where "st1 = (if truthy (walletAddress x) then
            (case refundBet gw (bet_id x) of
               Inr refundTx \<Rightarrow> Bet_updateOne (bet_id x) f (log_call (RefundBet (bet_id x)) st)
             | Inl e \<Rightarrow> log_call (RefundBet (bet_id x)) st)
          else st)"
  have eq: "snd (refundBets_loop gw (x # rest) st) = snd (refundBets_loop gw rest st1)"
    unfolding refundBets_loop_snd st1_def f_def by simp
  have xin: "x \<in> set (bets st)" using Cons.prems(2) by simp
  have fx: "f x = g x" by (simp add: f_def g_def)
  have upd: "update_first (bet_id x) f (bets st)
      = map (\<lambda>y. if bet_id y = bet_id x then g y else y) (bets st)"
    by (rule update_first_map[of "bets st" x f g, OF Cons.prems(1) xin fx])
  have b1: "bets st1 = bets st \<or> bets st1 = map (\<lambda>y. if bet_id y = bet_id x then g y else y) (bets st)"
    using upd by (auto simp: st1_def split: sum.splits)
  have gid: "bet_id (g y) = bet_id y" for y by (simp add: g_def)
  have "map bet_id (map (\<lambda>y. if bet_id y = bet_id x then g y else y) (bets st))
      = map bet_id (bets st)"
    by (rule map_ids_same) (simp add: gid)
  then have ids1: "map bet_id (bets st1) = map bet_id (bets st)"
    using b1 by auto
  have d1: "distinct (map bet_id (bets st1))" using ids1 Cons.prems(1) by simp
  have notin': "\<forall>y\<in>set rest. bet_id y \<noteq> bet_id x"
    using Cons.prems(3) by (metis distinct.simps(2) imageI list.simps(9) set_map)
  have sub1: "set rest \<subseteq> set (bets st1)"
  proof
    fix y assume y: "y \<in> set rest"
    then have yin: "y \<in> set (bets st)" and ne: "bet_id y \<noteq> bet_id x"
      using Cons.prems(2) notin' by auto
    then have "y \<in> (\<lambda>y. if bet_id y = bet_id x then g y else y) ` set (bets st)"
      by (intro image_eqI[of _ _ y]) simp_all
    then show "y \<in> set (bets st1)" using b1 yin by auto
  qed
  have d2: "distinct (map bet_id rest)" using Cons.prems(3) by simp
  have pend: "\<forall>y\<in>set rest. bet.status y = PENDING" using Cons.prems(4) by simp
  have pg: "payout_ok (g y)" for y by (simp add: payout_ok_def g_def)
  have p1: "\<forall>y\<in>set (bets st1). payout_ok y"
    using b1 Cons.prems(5) pg by auto
  from Cons.IH[OF d1 sub1 d2 pend p1] show ?case
    unfolding eq using ids1 by simp
qed

lemma refundBets_payout:
  assumes d: "distinct (map bet_id (bets st))" and p: "\<forall>x\<in>set (bets st). payout_ok x"
  shows "(\<forall>x\<in>set (bets (snd (refundBets gw rid st))). payout_ok x)
     \<and> map bet_id (bets (snd (refundBets gw rid st))) = map bet_id (bets st)"
proof -
  have pp: "\<forall>x\<in>set (Bet_find_pending rid st). bet.status x = PENDING"
    by (simp add: Bet_find_pending_def)
  from refundBets_loop_payout[OF d pending_subset pending_distinct[OF d] pp p]
  have "(\<forall>x\<in>set (bets (snd (refundBets_loop gw (Bet_find_pending rid st) st))). payout_ok x)
   \<and> map bet_id (bets (snd (refundBets_loop gw (Bet_find_pending rid st) st))) = map bet_id (bets st)"
    by blast
  then show ?thesis using p
    by (auto simp: refundBets_def Round_findById_def split: option.splits prod.splits)
qed

lemma reachable_inv:
  "reachable st \<Longrightarrow> distinct (map bet_id (bets st)) \<and> (\<forall>x\<in>set (bets st). payout_ok x)"
proof (induction rule: reachable.induct)
  case (start st)
  then show ?case by simp
next
  case (confirm st S chain uid rid sel stk sig)
  from confirmBet_bets[of S chain uid rid sel stk sig st] show ?case
  proof
    assume "bets (snd (confirmBet (\<lambda>n s. s) S chain uid rid sel stk sig st)) = bets st"
    then show ?thesis using confirm.IH by simp
  next
    assume "\<exists>x. bets (snd (confirmBet (\<lambda>n s. s) S chain uid rid sel stk sig st)) = bets st @ [x]
          \<and> bet.status x = PENDING \<and> payout x = None \<and> bet_id x = fresh_id (bets st)"
    then obtain x where x: "bets (snd (confirmBet (\<lambda>n s. s) S chain uid rid sel stk sig st)) = bets st @ [x]"
      "bet.status x = PENDING" "payout x = None" "bet_id x = fresh_id (bets st)" by blast
    have "bet_id x \<notin> bet_id ` set (bets st)" using fresh_id_new x(4) by metis
    moreover have "payout_ok x" using x by (simp add: payout_ok_def)
    ultimately show ?thesis using confirm.IH x(1) by auto
  qed
next
  case (settle st S gw rid)
  then show ?case using job_payout[of st S gw rid] by simp
next
  case (refund st gw rid)
  then show ?case using refundBets_payout[of st gw rid] by simp
next
  case (lifecycle st rs us ls)
  then show ?case by simp
qed

lemma reachable_settled: "reachable (state_settled lo hi)"
  unfolding state_settled_def state_confirmed_def
  by (intro reachable.settle reachable.confirm reachable.start) (simp_all add: state0_def)

lemma odds_upper: "calculateOdds (\<lambda>_. None)
    (obj [(''type'', JStr ''range''), (''min'', JNum 51), (''max'', JNum 100)]) PICK_RANGE 0 = 2"
  by (simp add: obj_def js_rem_def js_trunc_def fromEqualBins_def edgeFactor_def)

lemma odds_lower: "calculateOdds (\<lambda>_. None)
    (obj [(''type'', JStr ''range''), (''min'', JNum 1), (''max'', JNum 50)]) PICK_RANGE 0 = 2"
  by (simp add: obj_def js_rem_def js_trunc_def fromEqualBins_def edgeFactor_def)

lemma bets_confirmed_upper: "bets (state_confirmed 51 100) = [bet0 1 51 100]"
  using odds_upper
  by (simp add: state_confirmed_def confirmBet_def confirm_round_def processBetConfirmation_def
      redis_set_nx_def Round_findById_def poll_loop.simps Bet_create_def fresh_id_def
      redis_set_cache_def redis_hset_def redis_incr_def confirmed_def state0_def round0_def
      round1_def account0_def bet0_def Let_def)

lemma bets_confirmed_lower: "bets (state_confirmed 1 50) = [bet0 1 1 50]"
  using odds_lower
  by (simp add: state_confirmed_def confirmBet_def confirm_round_def processBetConfirmation_def
      redis_set_nx_def Round_findById_def poll_loop.simps Bet_create_def fresh_id_def
      redis_set_cache_def redis_hset_def redis_incr_def confirmed_def state0_def round0_def
      round1_def account0_def bet0_def Let_def)

lemma rounds_confirmed: "rounds (state_confirmed lo hi) ''r1'' = Some round1"
  by (simp add: state_confirmed_def confirmBet_def confirm_round_def processBetConfirmation_def
      redis_set_nx_def Round_findById_def poll_loop.simps Bet_create_def fresh_id_def
      redis_set_cache_def redis_hset_def redis_incr_def confirmed_def state0_def round0_def
      round1_def account0_def bet0_def Let_def)

lemma bets_settled_upper:
  "bets (state_settled 51 100)
     = [(bet0 1 51 100)\<lparr>bet.status := LOST, payout := Some 0, settleTxSignature := Some ''settletx''\<rparr>]"
  using bets_confirmed_upper rounds_confirmed[of 51 100]
  by (simp add: state_settled_def processBetSettlementJob_def settle_try_def Round_findById_def
      Bet_find_pending_def undelegate_before_def isDelegated_def truthy_def finish_round_def
      round1_def round0_def gateway0_def bet0_def obj_def js_ge_def js_le_def Let_def)

lemma bets_settled_lower:
  "bets (state_settled 1 50)
     = [(bet0 1 1 50)\<lparr>bet.status := WON, payout := Some 20, settleTxSignature := Some ''settletx''\<rparr>]"
  using bets_confirmed_lower rounds_confirmed[of 1 50]
  by (simp add: state_settled_def processBetSettlementJob_def settle_try_def Round_findById_def
      Bet_find_pending_def undelegate_before_def isDelegated_def truthy_def finish_round_def
      round1_def round0_def gateway0_def bet0_def obj_def js_ge_def js_le_def Let_def)

section \<open>Claims about the payout field\<close>

text \<open>
  C6 (amended). For every bet in every reachable state, the payout is fixed by the
  status: absent when PENDING, stake times odds when WON, 0 when LOST, and the stake
  when REFUNDED.
\<close>

theorem payout_by_status:
  assumes "reachable st" and "x \<in> set (bets st)"
  shows "(bet.status x = PENDING \<longrightarrow> payout x = None)
     \<and> (bet.status x = WON \<longrightarrow> payout x = Some (stake x * odds x))
     \<and> (bet.status x = LOST \<longrightarrow> payout x = Some 0)
     \<and> (bet.status x = REFUNDED \<longrightarrow> payout x = Some (stake x))"
proof -
  have "payout_ok x" using reachable_inv[OF assms(1)] assms(2) by simp
  then show ?thesis by (cases "bet.status x") (simp_all add: payout_ok_def)
qed

theorem payout_by_status_witness:
  "reachable (state_settled 1 50)
   \<and> map (\<lambda>x. (bet.status x, payout x, stake x, odds x)) (bets (state_settled 1 50))
       = [(WON, Some 20, 10, 2)]
   \<and> payout (hd (bets (state_settled 1 50)))
       = Some (stake (hd (bets (state_settled 1 50))) * odds (hd (bets (state_settled 1 50))))"
proof -
  have r: "reachable (state_settled 1 50)" by (rule reachable_settled)
  have m: "hd (bets (state_settled 1 50)) \<in> set (bets (state_settled 1 50))"
    by (simp add: bets_settled_lower)
  have w: "bet.status (hd (bets (state_settled 1 50))) = WON"
    by (simp add: bets_settled_lower)
  from payout_by_status[OF r m] w
  have "payout (hd (bets (state_settled 1 50)))
       = Some (stake (hd (bets (state_settled 1 50))) * odds (hd (bets (state_settled 1 50))))"
    by blast
  then show ?thesis using r by (simp add: bets_settled_lower bet0_def)
qed

text \<open>
  C6, as stated, fails: a bet confirmed on the range 51 to 100 loses against the outcome
  37, and the settlement run stores it as LOST with payout 0, not with an absent payout.
\<close>

theorem lost_bet_payout_zero:
  "reachable (state_settled 51 100)
   \<and> map (\<lambda>x. (bet.status x, payout x)) (bets (state_settled 51 100)) = [(LOST, Some 0)]"
  using reachable_settled[of 51 100] by (simp add: bets_settled_upper)

end
